theory Spec2Isabelle
  imports Main "HOL-Library.Word"
begin

section \<open>Process memory\<close>

text \<open>
  The allocator works on raw storage: it overlays links, headers and padding on the bytes
  of a page. Memory is therefore a byte store indexed by address. Addresses and
  \<open>size_t\<close> quantities are natural numbers (address arithmetic that leaves the address
  space is undefined in C++ and is not modelled); the \<open>unsigned\<close> counters of the
  statistics and of the configuration are 32-bit words, so their wrap-around is the
  program's. The layout is the one of the default build of \<open>src/Makefile\<close> on a 64-bit
  little-endian target: pointers have 8 bytes, \<open>int\<close> 4 and \<open>short\<close> 2.
\<close>

type_synonym addr = nat
type_synonym byte = "8 word"
type_synonym heap = "addr \<Rightarrow> byte"

definition sizeof_ptr :: nat where
  "sizeof_ptr = 8"

definition sizeof_int :: nat where
  "sizeof_int = 4"

definition sizeof_short :: nat where
  "sizeof_short = 2"

definition sizeof_char :: nat where
  "sizeof_char = 1"

text \<open>\<open>std::memset(a, v, n)\<close>.\<close>

definition memset :: "heap \<Rightarrow> addr \<Rightarrow> byte \<Rightarrow> nat \<Rightarrow> heap" where
  "memset m a v n = (\<lambda>x. if a \<le> x \<and> x < a + n then v else m x)"

text \<open>Storing and loading an \<open>n\<close>-byte little-endian integer at address \<open>a\<close>.\<close>

definition store_le :: "heap \<Rightarrow> addr \<Rightarrow> nat \<Rightarrow> nat \<Rightarrow> heap" where
  "store_le m a n v = (\<lambda>x. if a \<le> x \<and> x < a + n then of_nat (v div 256 ^ (x - a)) else m x)"

primrec load_le :: "heap \<Rightarrow> addr \<Rightarrow> nat \<Rightarrow> nat" where
  "load_le m a 0 = 0"
| "load_le m a (Suc n) = unat (m a) + 256 * load_le m (Suc a) n"

text \<open>A pointer-sized field: \<open>p->Next\<close> of a \<open>GenericObject\<close>, or a header slot.\<close>

definition read_ptr :: "heap \<Rightarrow> addr \<Rightarrow> addr" where
  "read_ptr m a = load_le m a sizeof_ptr"

definition write_ptr :: "heap \<Rightarrow> addr \<Rightarrow> addr \<Rightarrow> heap" where
  "write_ptr m a v = store_le m a sizeof_ptr v"

section \<open>Configuration, statistics and the allocator object\<close>

text \<open>
  The declarations of \<open>ObjectAllocator.h\<close> are not part of the sources; the records
  below hold the fields that \<open>ObjectAllocator.cpp\<close> reads and writes. A name cannot end
  in an underscore here, so \<open>ObjectSize_\<close> is \<open>ObjectSize\<close> and so on; the fields
  \<open>type_\<close>, \<open>size_\<close> and \<open>additional_\<close> of the header description are \<open>hb_type\<close>,
  \<open>hb_size\<close> and \<open>hb_additional\<close>.
\<close>

datatype HBLOCK_TYPE = hbNone | hbBasic | hbExtended | hbExternal

record HeaderBlockInfo =
  hb_type :: HBLOCK_TYPE
  hb_size :: nat
  hb_additional :: nat

record OAConfig =
  UseCPPMemManager :: bool
  ObjectsPerPage :: "32 word"
  MaxPages :: "32 word"
  DebugOn :: bool
  PadBytes :: "32 word"
  HBlockInfo :: HeaderBlockInfo

record OAStats =
  ObjectSize :: nat
  PageSize :: nat
  FreeObjects :: "32 word"
  ObjectsInUse :: "32 word"
  PagesInUse :: "32 word"
  MostObjects :: "32 word"
  Allocations :: "32 word"
  Deallocations :: "32 word"

text \<open>
  The record that the external header variant allocates for a block in use. It lives in
  storage of the system allocator, apart from the pages, and is kept in a store of its own,
  indexed by its address.
\<close>

record MemBlockInfo =
  in_use :: bool
  label :: "string option"
  alloc_num :: "32 word"

datatype OAException =
  E_NO_MEMORY | E_NO_PAGES | E_BAD_BOUNDARY | E_MULTIPLE_FREE | E_CORRUPTED_BLOCK

text \<open>
  The object, together with the memory it works on: \<open>mem\<close> holds the bytes of the process,
  \<open>infos\<close> the \<open>MemBlockInfo\<close> records that are alive.
\<close>

record ObjectAllocator =
  clientConfig :: OAConfig
  stats :: OAStats
  PageList :: addr
  FreeList :: addr
  blockIter :: "32 word"
  mem :: heap
  infos :: "addr \<rightharpoonup> MemBlockInfo"

text \<open>
  What the system allocator answers to the \<open>new\<close> expressions a call may evaluate:
  the address of the storage, or \<open>None\<close> for \<open>std::bad_alloc\<close>. \<open>new_page\<close> is
  \<open>new char[stats.PageSize_]\<close>, \<open>new_object\<close> is \<open>new char[stats.ObjectSize_]\<close> of
  the fallback mode, \<open>new_info\<close> is \<open>new MemBlockInfo()\<close> and \<open>new_label\<close>
  is \<open>new char[strlen(label) + 1]\<close>.
\<close>

record sysnew =
  new_page :: "addr option"
  new_object :: "addr option"
  new_info :: "addr option"
  new_label :: "addr option"

text \<open>
  A call either returns a value or throws an \<open>OAException\<close>; in both cases the object
  is left in some state. \<open>Faults s\<close> stands for a call that, in the state \<open>s\<close>, reads
  through a pointer that is not the address of a live \<open>MemBlockInfo\<close> record: the program
  has no defined behaviour from there on (it crashes on a null pointer), and no caller
  continues after it. Functions that walk a linked list in memory, or that may trap,
  yield an \<open>outcome option\<close>, where \<open>None\<close> stands for a call that never returns;
  there a fault of a callee is \<open>None\<close> as well.
\<close>

datatype 'a outcome =
    Returns 'a ObjectAllocator
  | Throws OAException ObjectAllocator
  | Faults ObjectAllocator

text \<open>
  Modelled from the spec: the four debug patterns are constants of the missing header; the
  specification names the values of the canonical implementation, \<open>0xAA\<close> (unallocated),
  \<open>0xBB\<close> (allocated), \<open>0xCC\<close> (freed) and \<open>0xFF\<close> (padding).
\<close>

definition UNALLOCATED_PATTERN :: byte where
  "UNALLOCATED_PATTERN = 0xAA"

definition ALLOCATED_PATTERN :: byte where
  "ALLOCATED_PATTERN = 0xBB"

definition FREED_PATTERN :: byte where
  "FREED_PATTERN = 0xCC"

definition PAD_PATTERN :: byte where
  "PAD_PATTERN = 0xFF"

section \<open>Layout\<close>

text \<open>
  \<open>calculate_block_size\<close>: \<open>PadBytes_ * 2\<close> is an \<open>unsigned\<close> product and wraps at
  32 bits before it is widened to \<open>size_t\<close>.
\<close>

definition calculate_block_size :: "ObjectAllocator \<Rightarrow> nat" where
  "calculate_block_size s =
     (let headerSize = hb_size (HBlockInfo (clientConfig s));
          padding = unat (PadBytes (clientConfig s) * 2)
      in ObjectSize (stats s) + padding + headerSize)"

definition calculate_page_size :: "ObjectAllocator \<Rightarrow> nat" where
  "calculate_page_size s =
     sizeof_ptr + calculate_block_size s * unat (ObjectsPerPage (clientConfig s))"

definition create_offset :: "addr \<Rightarrow> addr" where
  "create_offset page = page + sizeof_ptr"

section \<open>Checks\<close>

text \<open>
  \<open>check_corruption\<close>: the loop returns \<open>true\<close> at the first index whose byte in the left
  or in the right padding differs from the pattern.
\<close>

definition check_corruption :: "ObjectAllocator \<Rightarrow> addr \<Rightarrow> bool" where
  "check_corruption s toCheck =
     (let firstPad = toCheck - unat (PadBytes (clientConfig s));
          secondPad = toCheck + ObjectSize (stats s)
      in list_ex (\<lambda>i. mem s (firstPad + i) \<noteq> PAD_PATTERN \<or> mem s (secondPad + i) \<noteq> PAD_PATTERN)
           [0 ..< unat (PadBytes (clientConfig s))])"

text \<open>
  \<open>check_leak_in_header\<close>. For the external variant the source casts the address of the
  header slot itself to \<open>MemBlockInfo *\<close> and reads \<open>in_use\<close> through it, without
  following the pointer stored in the slot: the byte it reads is the one at the offset of
  \<open>in_use\<close> in the record. Modelled from the spec: \<open>MemBlockInfo\<close> is declared in the
  missing header, with the in-use flag, the label and the allocation number; \<open>in_use\<close>
  is taken as its first member (offset 0), as in the canonical declaration, so the byte
  read is the first byte of the slot.
\<close>

definition check_leak_in_header :: "ObjectAllocator \<Rightarrow> addr \<Rightarrow> bool" where
  "check_leak_in_header s node =
     (if hb_type (HBlockInfo (clientConfig s)) = hbExternal
      then mem s node \<noteq> 0
      else mem s (node + (hb_size (HBlockInfo (clientConfig s)) - 1)) \<noteq> 0)"

definition check_out_of_page :: "ObjectAllocator \<Rightarrow> addr \<Rightarrow> addr \<Rightarrow> bool" where
  "check_out_of_page s toCheck pageList =
     (if toCheck < pageList \<or> toCheck > (pageList + calculate_page_size s) - sizeof_ptr
      then True else False)"

text \<open>
  \<open>check_wrong_offset\<close>: \<open>locationDifference\<close> is a \<open>long long\<close>; in
  \<open>locationDifference % calculate_block_size()\<close> the right operand is a 64-bit
  \<open>size_t\<close>, so the difference is converted to unsigned (reduced modulo \<open>2 ^ 64\<close>)
  before the remainder is taken. A block size of zero makes the remainder trap.
\<close>

definition check_wrong_offset :: "ObjectAllocator \<Rightarrow> addr \<Rightarrow> addr \<Rightarrow> bool option" where
  "check_wrong_offset s toCheck pageList =
     (let locationDifference =
            int toCheck - int (create_offset pageList + hb_size (HBlockInfo (clientConfig s))
                                 + unat (PadBytes (clientConfig s)))
      in if calculate_block_size s = 0 then None
         else if (locationDifference mod 2 ^ 64) mod int (calculate_block_size s) \<noteq> 0
         then Some True else Some False)"

text \<open>
  \<open>check_multiple_free\<close> walks the free list through memory; \<open>Some True\<close> is the walk
  that throws \<open>E_MULTIPLE_FREE\<close>.
\<close>

partial_function (option) check_multiple_free :: "heap \<Rightarrow> addr \<Rightarrow> addr \<Rightarrow> bool option" where
  "check_multiple_free m toCheck freeList =
     (if freeList \<noteq> 0
      then (if freeList = toCheck then Some True
            else check_multiple_free m toCheck (read_ptr m freeList))
      else Some False)"

text \<open>
  \<open>check_bad_location\<close>: the loop over the page list with its flag \<open>toThrow\<close>; the result
  is the value of the flag when the loop ends, that is, whether \<open>E_BAD_BOUNDARY\<close> is
  thrown. \<open>||\<close> does not evaluate \<open>check_wrong_offset\<close> when \<open>check_out_of_page\<close> holds.
\<close>

partial_function (option) check_bad_location_loop ::
  "ObjectAllocator \<Rightarrow> addr \<Rightarrow> addr \<Rightarrow> bool \<Rightarrow> bool option" where
  "check_bad_location_loop s toCheck pageList toThrow =
     (if pageList \<noteq> 0
      then (if check_out_of_page s toCheck pageList
            then check_bad_location_loop s toCheck (read_ptr (mem s) pageList) True
            else (case check_wrong_offset s toCheck pageList of
                    None \<Rightarrow> None
                  | Some wrong \<Rightarrow>
                      if wrong
                      then check_bad_location_loop s toCheck (read_ptr (mem s) pageList) True
                      else Some False))
      else Some toThrow)"

definition check_bad_location :: "ObjectAllocator \<Rightarrow> addr \<Rightarrow> addr \<Rightarrow> bool option" where
  "check_bad_location s toCheck pageList = check_bad_location_loop s toCheck pageList False"

text \<open>
  \<open>check_freelist\<close>: \<open>Some (Some e)\<close> when the exception \<open>e\<close> is thrown,
  \<open>Some None\<close> when all checks pass.
\<close>

definition check_freelist :: "ObjectAllocator \<Rightarrow> addr \<Rightarrow> OAException option option" where
  "check_freelist s node =
     (let freeListCopy = FreeList s; pageListCopy = PageList s; nodeCopy = node
      in if PadBytes (clientConfig s) \<noteq> 0 \<and> check_corruption s nodeCopy
         then Some (Some E_CORRUPTED_BLOCK)
         else (case check_multiple_free (mem s) nodeCopy freeListCopy of
                 None \<Rightarrow> None
               | Some True \<Rightarrow> Some (Some E_MULTIPLE_FREE)
               | Some False \<Rightarrow>
                   (case check_bad_location s nodeCopy pageListCopy of
                      None \<Rightarrow> None
                    | Some True \<Rightarrow> Some (Some E_BAD_BOUNDARY)
                    | Some False \<Rightarrow> Some None)))"

section \<open>Headers\<close>

text \<open>
  The paths of \<open>add_to_page\<close> and \<open>put_on_freelist\<close> call \<open>configure_header\<close> with
  \<open>allocated = false\<close>, where no \<open>new\<close> expression is evaluated.
\<close>

definition no_new :: sysnew where
  "no_new = \<lparr>new_page = None, new_object = None, new_info = None, new_label = None\<rparr>"

text \<open>
  \<open>configure_header\<close>. The header of a block starts \<open>PadBytes_ + size_\<close> bytes below the
  object pointer \<open>block\<close>. \<open>new MemBlockInfo()\<close> value-initialises the record;
  \<open>delete\<close> removes it from the store of records. When a block with the external header
  is freed, the pointer \<open>toDelete\<close> read from the header slot is dereferenced
  (\<open>toDelete->label\<close>) and deleted: the call faults unless \<open>toDelete\<close> is the address of
  a live record.
\<close>

definition configure_header ::
  "ObjectAllocator \<Rightarrow> addr \<Rightarrow> bool \<Rightarrow> bool \<Rightarrow> string option \<Rightarrow> sysnew \<Rightarrow> unit outcome" where
  "configure_header s block allocated freed lbl sys =
     (let hb = HBlockInfo (clientConfig s);
          headerLocation = block - (unat (PadBytes (clientConfig s)) + hb_size hb)
      in case hb_type hb of
           hbBasic \<Rightarrow>
             (let m1 = memset (mem s) headerLocation 0 (hb_size hb)
              in if allocated
                 then (let m2 = store_le m1 headerLocation sizeof_int (unat (Allocations (stats s)));
                           headerFlag = headerLocation + sizeof_int
                       in Returns () (s\<lparr>mem := m2(headerFlag := 1)\<rparr>))
                 else Returns () (s\<lparr>mem := m1\<rparr>))
         | hbExtended \<Rightarrow>
             (if \<not> allocated \<and> \<not> freed
              then Returns () (s\<lparr>mem := memset (mem s) headerLocation 0 (hb_size hb)\<rparr>)
              else if allocated
              then (let m1 = memset (mem s) headerLocation 0 (hb_additional hb);
                        headerShort = headerLocation + hb_additional hb;
                        m2 = store_le m1 headerShort sizeof_short
                               (load_le m1 headerShort sizeof_short + 1);
                        headerInt = headerShort + sizeof_short;
                        m3 = store_le m2 headerInt sizeof_int (unat (Allocations (stats s)));
                        headerFlag = headerInt + sizeof_int
                    in Returns () (s\<lparr>mem := m3(headerFlag := 1)\<rparr>))
              else Returns ()
                     (s\<lparr>mem := memset (mem s) (headerLocation + hb_additional hb + sizeof_short) 0
                                  (sizeof_int + sizeof_char)\<rparr>))
         | hbExternal \<Rightarrow>
             (if \<not> allocated \<and> \<not> freed
              then Returns () (s\<lparr>mem := memset (mem s) headerLocation 0 (hb_size hb)\<rparr>)
              else if allocated
              then (case new_info sys of
                      None \<Rightarrow> Throws E_NO_MEMORY s
                    | Some info \<Rightarrow>
                        (let blank = \<lparr>in_use = False, label = None, alloc_num = 0\<rparr>
                         in case lbl of
                              None \<Rightarrow>
                                Returns ()
                                  (s\<lparr>infos := (infos s)(info \<mapsto>
                                         blank\<lparr>alloc_num := Allocations (stats s), in_use := True\<rparr>),
                                     mem := write_ptr (mem s) headerLocation info\<rparr>)
                            | Some l \<Rightarrow>
                                (case new_label sys of
                                   None \<Rightarrow> Throws E_NO_MEMORY (s\<lparr>infos := (infos s)(info \<mapsto> blank)\<rparr>)
                                 | Some _ \<Rightarrow>
                                     Returns ()
                                       (s\<lparr>infos := (infos s)(info \<mapsto>
                                              blank\<lparr>label := Some l,
                                                    alloc_num := Allocations (stats s),
                                                    in_use := True\<rparr>),
                                          mem := write_ptr (mem s) headerLocation info\<rparr>))))
              else (let toDelete = read_ptr (mem s) headerLocation
                    in case infos s toDelete of
                         None \<Rightarrow> Faults s
                       | Some _ \<Rightarrow>
                           Returns ()
                             (s\<lparr>infos := (infos s)(toDelete := None),
                                mem := memset (mem s) headerLocation 0 (hb_size hb)\<rparr>)))
         | hbNone \<Rightarrow> Returns () s)"

section \<open>Pages\<close>

text \<open>\<open>allocate_empty_page\<close>; \<open>newPage\<close> is the answer to \<open>new char[stats.PageSize_]\<close>.\<close>

definition allocate_empty_page :: "ObjectAllocator \<Rightarrow> addr option \<Rightarrow> unit outcome" where
  "allocate_empty_page s np =
     (if PagesInUse (stats s) \<ge> MaxPages (clientConfig s) then Throws E_NO_PAGES s
      else case np of
             None \<Rightarrow> Throws E_NO_MEMORY s
           | Some newPage \<Rightarrow>
               (let m1 = (if DebugOn (clientConfig s)
                          then memset (mem s) newPage UNALLOCATED_PATTERN (PageSize (stats s))
                          else mem s)
                in if PageList s = 0
                   then Returns () (s\<lparr>PageList := newPage, mem := write_ptr m1 newPage 0\<rparr>)
                   else Returns () (s\<lparr>mem := write_ptr m1 newPage (PageList s), PageList := newPage\<rparr>)))"

text \<open>
  \<open>make_block\<close>: the object pointer of block number \<open>blockIter - makePrev\<close> of the newest
  page; in debug mode it paints the two paddings of that block.
\<close>

definition make_block :: "ObjectAllocator \<Rightarrow> bool \<Rightarrow> addr \<times> ObjectAllocator" where
  "make_block s makePrev =
     (let pad = unat (PadBytes (clientConfig s));
          newBlock = create_offset (PageList s)
                       + calculate_block_size s * unat (blockIter s - (if makePrev then 1 else 0));
          newBlock = newBlock + (hb_size (HBlockInfo (clientConfig s)) + pad)
      in if DebugOn (clientConfig s)
         then (newBlock,
               s\<lparr>mem := memset (memset (mem s) (newBlock - pad) PAD_PATTERN pad)
                                (newBlock + ObjectSize (stats s)) PAD_PATTERN pad\<rparr>)
         else (newBlock, s))"

definition add_to_page :: "ObjectAllocator \<Rightarrow> unit outcome" where
  "add_to_page s =
     (let (block, s1) = make_block s False;
          s2 = (if blockIter s1 \<noteq> 0
                then (let (prevBlock, s1') = make_block s1 True
                      in s1'\<lparr>FreeList := block, mem := write_ptr (mem s1') block prevBlock\<rparr>)
                else (let s1' = (if DebugOn (clientConfig s1)
                                 then s1\<lparr>mem := memset (mem s1) (block - unat (PadBytes (clientConfig s1)))
                                                   PAD_PATTERN (unat (PadBytes (clientConfig s1)))\<rparr>
                                 else s1)
                      in s1'\<lparr>FreeList := block, mem := write_ptr (mem s1') block 0\<rparr>));
          s3 = s2\<lparr>stats := (stats s2)\<lparr>FreeObjects := FreeObjects (stats s2) + 1\<rparr>,
                  blockIter := blockIter s2 + 1\<rparr>
      in configure_header s3 block False False None no_new)"

text \<open>The \<open>for\<close> loop of \<open>segment_page\<close>, by the number of iterations still to run.\<close>

primrec segment_loop :: "nat \<Rightarrow> ObjectAllocator \<Rightarrow> unit outcome" where
  "segment_loop 0 s = Returns () s"
| "segment_loop (Suc n) s =
     (case add_to_page s of
        Throws e s' \<Rightarrow> Throws e s'
      | Faults s' \<Rightarrow> Faults s'
      | Returns _ s' \<Rightarrow> segment_loop n s')"

definition segment_page :: "ObjectAllocator \<Rightarrow> unit outcome" where
  "segment_page s =
     (case segment_loop (unat (ObjectsPerPage (clientConfig s))) (s\<lparr>blockIter := 0\<rparr>) of
        Throws e s' \<Rightarrow> Throws e s'
      | Faults s' \<Rightarrow> Faults s'
      | Returns _ s' \<Rightarrow>
          Returns () (s'\<lparr>stats := (stats s')\<lparr>PagesInUse := PagesInUse (stats s') + 1\<rparr>\<rparr>))"

definition allocate_new_page :: "ObjectAllocator \<Rightarrow> addr option \<Rightarrow> unit outcome" where
  "allocate_new_page s np =
     (case allocate_empty_page s np of
        Throws e s' \<Rightarrow> Throws e s'
      | Faults s' \<Rightarrow> Faults s'
      | Returns _ s' \<Rightarrow> segment_page s')"

section \<open>The free list\<close>

text \<open>
  \<open>take_off_freelist\<close> dereferences \<open>FreeList_\<close>; with a null \<open>FreeList_\<close> the call does not
  return.
\<close>

definition take_off_freelist ::
  "ObjectAllocator \<Rightarrow> string option \<Rightarrow> sysnew \<Rightarrow> addr outcome option" where
  "take_off_freelist s lbl sys =
     (let s1 = s\<lparr>stats := (stats s)
                  \<lparr>FreeObjects := FreeObjects (stats s) - 1,
                   ObjectsInUse := ObjectsInUse (stats s) + 1,
                   MostObjects := MostObjects (stats s) + 1,
                   Allocations := Allocations (stats s) + 1\<rparr>\<rparr>
      in if FreeList s1 = 0 then None
         else case configure_header s1 (FreeList s1) True False lbl sys of
                Throws e s' \<Rightarrow> Some (Throws e s')
              | Faults _ \<Rightarrow> None
              | Returns _ s2 \<Rightarrow>
                  (let block = FreeList s2;
                       s3 = s2\<lparr>FreeList := read_ptr (mem s2) (FreeList s2)\<rparr>;
                       s4 = (if DebugOn (clientConfig s3)
                             then s3\<lparr>mem := memset (mem s3) block ALLOCATED_PATTERN
                                               (ObjectSize (stats s3))\<rparr>
                             else s3)
                   in Some (Returns block s4)))"

definition put_on_freelist :: "ObjectAllocator \<Rightarrow> addr \<Rightarrow> unit outcome option" where
  "put_on_freelist s Object =
     (let s1 = s\<lparr>stats := (stats s)
                  \<lparr>Deallocations := Deallocations (stats s) + 1,
                   ObjectsInUse := ObjectsInUse (stats s) - 1,
                   FreeObjects := FreeObjects (stats s) + 1\<rparr>\<rparr>;
          newFreeNode = Object
      in case (if DebugOn (clientConfig s1) then check_freelist s1 newFreeNode else Some None) of
           None \<Rightarrow> None
         | Some (Some e) \<Rightarrow> Some (Throws e s1)
         | Some None \<Rightarrow>
             (case configure_header s1 newFreeNode False True None no_new of
                Throws e s' \<Rightarrow> Some (Throws e s')
              | Faults _ \<Rightarrow> None
              | Returns _ s2 \<Rightarrow>
                  (let s3 = (if DebugOn (clientConfig s2)
                             then s2\<lparr>mem := memset (mem s2) newFreeNode FREED_PATTERN
                                               (ObjectSize (stats s2))\<rparr>
                             else s2);
                       s4 = (if FreeList s3 = 0
                             then s3\<lparr>FreeList := newFreeNode,
                                     mem := write_ptr (mem s3) newFreeNode 0\<rparr>
                             else s3\<lparr>mem := write_ptr (mem s3) newFreeNode (FreeList s3),
                                     FreeList := newFreeNode\<rparr>)
                   in Some (Returns () s4))))"

section \<open>The public operations\<close>

text \<open>
  The constructor. \<open>m\<close> is the memory of the process when the object is created; the
  counters of \<open>OAStats\<close> start at zero.
\<close>

definition ObjectAllocator_ctor :: "nat \<Rightarrow> OAConfig \<Rightarrow> heap \<Rightarrow> sysnew \<Rightarrow> unit outcome" where
  "ObjectAllocator_ctor objectSize config m sys =
     (let s0 = \<lparr>clientConfig = config,
                stats = \<lparr>ObjectSize = objectSize, PageSize = 0, FreeObjects = 0, ObjectsInUse = 0,
                         PagesInUse = 0, MostObjects = 0, Allocations = 0, Deallocations = 0\<rparr>,
                PageList = 0, FreeList = 0, blockIter = 0, mem = m, infos = Map.empty\<rparr>;
          s1 = s0\<lparr>stats := (stats s0)\<lparr>PageSize := calculate_page_size s0\<rparr>\<rparr>
      in if UseCPPMemManager config = False
         then allocate_new_page s1 (new_page sys)
         else Returns () s1)"

definition Allocate :: "ObjectAllocator \<Rightarrow> string option \<Rightarrow> sysnew \<Rightarrow> addr outcome option" where
  "Allocate s lbl sys =
     (if UseCPPMemManager (clientConfig s) = False
      then (case (if FreeList s = 0 then allocate_new_page s (new_page sys) else Returns () s) of
              Throws e s' \<Rightarrow> Some (Throws e s')
            | Faults _ \<Rightarrow> None
            | Returns _ s' \<Rightarrow> take_off_freelist s' lbl sys)
      else (let s1 = s\<lparr>stats := (stats s)
                        \<lparr>Allocations := Allocations (stats s) + 1,
                         MostObjects := MostObjects (stats s) + 1\<rparr>\<rparr>
            in case new_object sys of
                 Some p \<Rightarrow> Some (Returns p s1)
               | None \<Rightarrow> Some (Throws E_NO_MEMORY s1)))"

definition Free :: "ObjectAllocator \<Rightarrow> addr \<Rightarrow> unit outcome option" where
  "Free s Object =
     (if UseCPPMemManager (clientConfig s) = False
      then put_on_freelist s Object
      else Some (Returns () (s\<lparr>stats := (stats s)\<lparr>Deallocations := Deallocations (stats s) + 1\<rparr>\<rparr>)))"


text \<open>
  \<open>DumpMemoryInUse\<close> and \<open>ValidatePages\<close>. The accumulator is the list of the calls made to
  the callback, as pairs of the pointer and the size passed, with the counter
  \<open>numObjects\<close>. The inner \<open>for\<close> loop runs by the number of iterations left,
  \<open>freeListCopy\<close> advancing by one block size each time.
\<close>

type_synonym calls = "(addr \<times> nat) list \<times> 32 word"

primrec dump_blocks :: "ObjectAllocator \<Rightarrow> nat \<Rightarrow> addr \<Rightarrow> calls \<Rightarrow> calls" where
  "dump_blocks s 0 freeListCopy acc = acc"
| "dump_blocks s (Suc n) freeListCopy acc =
     dump_blocks s n (freeListCopy + calculate_block_size s)
       (if hb_size (HBlockInfo (clientConfig s)) \<noteq> 0
        then (if check_leak_in_header s freeListCopy
              then (fst acc @ [(freeListCopy + hb_size (HBlockInfo (clientConfig s)),
                                ObjectSize (stats s))],
                    snd acc + 1)
              else acc)
        else acc)"

partial_function (option) dump_pages :: "ObjectAllocator \<Rightarrow> addr \<Rightarrow> calls \<Rightarrow> calls option" where
  "dump_pages s pageListCopy acc =
     (if pageListCopy \<noteq> 0
      then dump_pages s (read_ptr (mem s) pageListCopy)
             (dump_blocks s (unat (ObjectsPerPage (clientConfig s)))
                (create_offset pageListCopy) acc)
      else Some acc)"

definition DumpMemoryInUse :: "ObjectAllocator \<Rightarrow> calls option" where
  "DumpMemoryInUse s = dump_pages s (PageList s) ([], 0)"

primrec validate_blocks :: "ObjectAllocator \<Rightarrow> nat \<Rightarrow> addr \<Rightarrow> calls \<Rightarrow> calls" where
  "validate_blocks s 0 freeListCopy acc = acc"
| "validate_blocks s (Suc n) freeListCopy acc =
     validate_blocks s n (freeListCopy + calculate_block_size s)
       (if hb_size (HBlockInfo (clientConfig s)) \<noteq> 0
        then (if check_corruption s freeListCopy
              then (fst acc @ [(freeListCopy + hb_size (HBlockInfo (clientConfig s)),
                                ObjectSize (stats s))],
                    snd acc + 1)
              else acc)
        else acc)"

partial_function (option) validate_pages :: "ObjectAllocator \<Rightarrow> addr \<Rightarrow> calls \<Rightarrow> calls option" where
  "validate_pages s pageListCopy acc =
     (if pageListCopy \<noteq> 0
      then validate_pages s (read_ptr (mem s) pageListCopy)
             (validate_blocks s (unat (ObjectsPerPage (clientConfig s)))
                (create_offset pageListCopy
                   + (hb_size (HBlockInfo (clientConfig s)) + unat (PadBytes (clientConfig s))))
                acc)
      else Some acc)"

definition ValidatePages :: "ObjectAllocator \<Rightarrow> calls option" where
  "ValidatePages s = validate_pages s (PageList s) ([], 0)"

section \<open>Sequences of calls\<close>


fun state_of :: "'a outcome \<Rightarrow> ObjectAllocator" where
  "state_of (Returns _ s) = s"
| "state_of (Throws _ s) = s"
| "state_of (Faults s) = s"

fun thrown :: "'a outcome \<Rightarrow> OAException option" where
  "thrown (Returns _ _) = None"
| "thrown (Throws e _) = Some e"
| "thrown (Faults _) = None"

fun returned :: "'a outcome \<Rightarrow> 'a option" where
  "returned (Returns x _) = Some x"
| "returned (Throws _ _) = None"
| "returned (Faults _) = None"

fun faulted :: "'a outcome \<Rightarrow> bool" where
  "faulted (Faults _) = True"
| "faulted _ = False"


section \<open>Specification vocabulary\<close>

text \<open>
  A list in memory: \<open>path m p xs\<close> says that following the link stored in the first
  pointer-sized field of each node, from \<open>p\<close>, visits the nodes \<open>xs\<close> and then reaches
  the null pointer. Both the page list and the free list are linked this way.
\<close>

fun path :: "heap \<Rightarrow> addr \<Rightarrow> addr list \<Rightarrow> bool" where
  "path m p [] = (p = 0)"
| "path m p (x # xs) = (p \<noteq> 0 \<and> p = x \<and> path m (read_ptr m x) xs)"

text \<open>
  The object pointer of block \<open>i\<close> of the page at \<open>page\<close>, as \<open>make_block\<close> computes it,
  and the object pointers of all blocks of a list of pages.
\<close>

definition block_at :: "ObjectAllocator \<Rightarrow> addr \<Rightarrow> nat \<Rightarrow> addr" where
  "block_at s page i =
     create_offset page + calculate_block_size s * i
       + (hb_size (HBlockInfo (clientConfig s)) + unat (PadBytes (clientConfig s)))"

definition page_blocks :: "ObjectAllocator \<Rightarrow> addr \<Rightarrow> addr list" where
  "page_blocks s page = map (block_at s page) [0 ..< unat (ObjectsPerPage (clientConfig s))]"

definition all_blocks :: "ObjectAllocator \<Rightarrow> addr list \<Rightarrow> addr list" where
  "all_blocks s pages = concat (map (page_blocks s) pages)"

text \<open>
  The header description is consistent when the header is large enough for what
  \<open>configure_header\<close> writes into it.
\<close>

definition header_fits :: "HeaderBlockInfo \<Rightarrow> bool" where
  "header_fits hb =
     (case hb_type hb of
        hbNone \<Rightarrow> True
      | hbBasic \<Rightarrow> sizeof_int + sizeof_char \<le> hb_size hb
      | hbExtended \<Rightarrow> hb_additional hb + sizeof_short + sizeof_int + sizeof_char \<le> hb_size hb
      | hbExternal \<Rightarrow> sizeof_ptr \<le> hb_size hb)"

text \<open>
  A usable pool configuration: an object can hold the link of the free list, a page has
  at least one block, twice the padding does not wrap, the header fits, and the page size
  recorded at construction is the one of the layout.
\<close>

definition config_ok :: "ObjectAllocator \<Rightarrow> bool" where
  "config_ok s \<longleftrightarrow>
     UseCPPMemManager (clientConfig s) = False
     \<and> sizeof_ptr \<le> ObjectSize (stats s)
     \<and> 0 < unat (ObjectsPerPage (clientConfig s))
     \<and> unat (PadBytes (clientConfig s)) < 2 ^ 31
     \<and> header_fits (HBlockInfo (clientConfig s))
     \<and> PageSize (stats s) = calculate_page_size s"

text \<open>
  What the system allocator guarantees for the storage of a page: it is not null, lies
  inside the address space and does not overlap the pages handed out before.
\<close>

definition fresh_page :: "ObjectAllocator \<Rightarrow> addr list \<Rightarrow> addr \<Rightarrow> bool" where
  "fresh_page s pages P \<longleftrightarrow>
     0 < P \<and> P + calculate_page_size s \<le> 2 ^ 64
     \<and> (\<forall>Q \<in> set pages. P + calculate_page_size s \<le> Q \<or> Q + calculate_page_size s \<le> P)"

fun pages_ok :: "ObjectAllocator \<Rightarrow> addr list \<Rightarrow> bool" where
  "pages_ok s [] = True"
| "pages_ok s (P # pages) = (fresh_page s pages P \<and> pages_ok s pages)"

text \<open>
  The state invariant of the pool, for the page list \<open>pages\<close> and the free list \<open>fl\<close>:
  both lists are linked in memory, the free blocks are distinct blocks of the pages and
  the counters agree with the lists. With \<open>w\<close> set it also says that, in debug mode, the
  paddings of all blocks hold the pad pattern; \<open>oa_inv\<close> is the invariant with this part,
  \<open>oa_core\<close> the one without.
\<close>

definition oa_gen :: "bool \<Rightarrow> ObjectAllocator \<Rightarrow> addr list \<Rightarrow> addr list \<Rightarrow> bool" where
  "oa_gen w s pages fl \<longleftrightarrow>
     config_ok s
     \<and> pages_ok s pages
     \<and> path (mem s) (PageList s) pages
     \<and> path (mem s) (FreeList s) fl
     \<and> distinct fl
     \<and> set fl \<subseteq> set (all_blocks s pages)
     \<and> FreeObjects (stats s) = of_nat (length fl)
     \<and> PagesInUse (stats s) = of_nat (length pages)
     \<and> FreeObjects (stats s) + ObjectsInUse (stats s)
         = PagesInUse (stats s) * ObjectsPerPage (clientConfig s)
     \<and> (w \<longrightarrow> DebugOn (clientConfig s) \<longrightarrow>
          (\<forall>b \<in> set (all_blocks s pages). \<not> check_corruption s b))"

abbreviation oa_inv :: "ObjectAllocator \<Rightarrow> addr list \<Rightarrow> addr list \<Rightarrow> bool" where
  "oa_inv \<equiv> oa_gen True"


text \<open>The counters balance: free plus in-use blocks are the blocks of the pages in use.\<close>

definition balanced :: "ObjectAllocator \<Rightarrow> bool" where
  "balanced s \<longleftrightarrow>
     FreeObjects (stats s) + ObjectsInUse (stats s)
       = PagesInUse (stats s) * ObjectsPerPage (clientConfig s)"


section \<open>Sample configurations\<close>

text \<open>
  Small configurations on which the theorems are exercised: two objects of eight bytes per
  page and at most two pages, in debug mode; without header and padding, with the basic
  header and two bytes of padding, and with the external header.
\<close>

definition plain_config :: OAConfig where
  "plain_config =
     \<lparr>UseCPPMemManager = False, ObjectsPerPage = 2, MaxPages = 2, DebugOn = True, PadBytes = 0,
      HBlockInfo = \<lparr>hb_type = hbNone, hb_size = 0, hb_additional = 0\<rparr>\<rparr>"

definition basic_config :: OAConfig where
  "basic_config =
     \<lparr>UseCPPMemManager = False, ObjectsPerPage = 2, MaxPages = 2, DebugOn = True, PadBytes = 2,
      HBlockInfo = \<lparr>hb_type = hbBasic, hb_size = 5, hb_additional = 0\<rparr>\<rparr>"

definition external_config :: OAConfig where
  "external_config =
     \<lparr>UseCPPMemManager = False, ObjectsPerPage = 2, MaxPages = 2, DebugOn = True, PadBytes = 0,
      HBlockInfo = \<lparr>hb_type = hbExternal, hb_size = 8, hb_additional = 0\<rparr>\<rparr>"

text \<open>A system allocator that answers every request for a page with the address \<open>P\<close>.\<close>

definition page_at :: "addr \<Rightarrow> sysnew" where
  "page_at P = \<lparr>new_page = Some P, new_object = None, new_info = None, new_label = None\<rparr>"

text \<open>Memory before the allocator is created: all bytes zero.\<close>

definition zero_mem :: heap where
  "zero_mem = (\<lambda>_. 0)"

section \<open>Vocabulary of the proofs\<close>

text \<open>
  Two states have the same geometry when they agree on the configuration and on the
  object and page sizes; every call keeps the geometry.
\<close>

definition same_geom :: "ObjectAllocator \<Rightarrow> ObjectAllocator \<Rightarrow> bool" where
  "same_geom s s' \<longleftrightarrow>
     clientConfig s' = clientConfig s
     \<and> ObjectSize (stats s') = ObjectSize (stats s)
     \<and> PageSize (stats s') = PageSize (stats s)"

text \<open>
  The parts of the block with object pointer \<open>b\<close>: its two paddings, its header, and
  the whole block from the header to the end of the right padding.
\<close>

definition in_pads :: "ObjectAllocator \<Rightarrow> addr \<Rightarrow> addr \<Rightarrow> bool" where
  "in_pads s b x \<longleftrightarrow>
     (b - unat (PadBytes (clientConfig s)) \<le> x \<and> x < b)
     \<or> (b + ObjectSize (stats s) \<le> x
        \<and> x < b + ObjectSize (stats s) + unat (PadBytes (clientConfig s)))"

definition in_header :: "ObjectAllocator \<Rightarrow> addr \<Rightarrow> addr \<Rightarrow> bool" where
  "in_header s b x \<longleftrightarrow>
     b - (unat (PadBytes (clientConfig s)) + hb_size (HBlockInfo (clientConfig s))) \<le> x
     \<and> x < b - unat (PadBytes (clientConfig s))"

definition in_object :: "ObjectAllocator \<Rightarrow> addr \<Rightarrow> addr \<Rightarrow> bool" where
  "in_object s b x \<longleftrightarrow> b \<le> x \<and> x < b + ObjectSize (stats s)"

definition in_block :: "ObjectAllocator \<Rightarrow> addr \<Rightarrow> addr \<Rightarrow> bool" where
  "in_block s b x \<longleftrightarrow>
     b - (unat (PadBytes (clientConfig s)) + hb_size (HBlockInfo (clientConfig s))) \<le> x
     \<and> x < b + ObjectSize (stats s) + unat (PadBytes (clientConfig s))"

text \<open>What \<open>make_block\<close> does to memory, and what the first \<open>configure_header\<close> does.\<close>

definition paint :: "ObjectAllocator \<Rightarrow> addr \<Rightarrow> heap \<Rightarrow> heap" where
  "paint s b m =
     (if DebugOn (clientConfig s)
      then memset (memset m (b - unat (PadBytes (clientConfig s))) PAD_PATTERN
                     (unat (PadBytes (clientConfig s))))
             (b + ObjectSize (stats s)) PAD_PATTERN (unat (PadBytes (clientConfig s)))
      else m)"

definition clear_header :: "ObjectAllocator \<Rightarrow> addr \<Rightarrow> heap \<Rightarrow> heap" where
  "clear_header s b m =
     (if hb_type (HBlockInfo (clientConfig s)) = hbNone then m
      else memset m (b - (unat (PadBytes (clientConfig s)) + hb_size (HBlockInfo (clientConfig s))))
             0 (hb_size (HBlockInfo (clientConfig s))))"

text \<open>The paddings of the block at \<open>b\<close> hold the pad pattern.\<close>

definition pads_ok :: "ObjectAllocator \<Rightarrow> addr \<Rightarrow> bool" where
  "pads_ok s b \<longleftrightarrow> (\<forall>x. in_pads s b x \<longrightarrow> mem s x = PAD_PATTERN)"

text \<open>
  The state \<open>t\<close> of the loop of \<open>segment_page\<close> after \<open>n\<close> iterations, started in \<open>s0\<close>:
  the first \<open>n\<close> blocks of the newest page form the free list, last block first, and
  nothing outside these blocks has changed.
\<close>

definition seg_inv :: "ObjectAllocator \<Rightarrow> nat \<Rightarrow> ObjectAllocator \<Rightarrow> bool" where
  "seg_inv s0 n t \<longleftrightarrow>
     same_geom s0 t \<and> PageList t = PageList s0 \<and> infos t = infos s0
     \<and> blockIter t = of_nat n
     \<and> stats t = (stats s0)\<lparr>FreeObjects := FreeObjects (stats s0) + of_nat n\<rparr>
     \<and> (\<forall>x. x < PageList s0 + sizeof_ptr
              \<or> PageList s0 + sizeof_ptr + calculate_block_size s0 * n \<le> x
            \<longrightarrow> mem t x = mem s0 x)
     \<and> FreeList t = (if n = 0 then FreeList s0 else block_at s0 (PageList s0) (n - 1))
     \<and> path (mem t) (if n = 0 then 0 else block_at s0 (PageList s0) (n - 1))
           (rev (map (block_at s0 (PageList s0)) [0 ..< n]))
     \<and> (DebugOn (clientConfig s0) \<longrightarrow> (\<forall>j < n. pads_ok t (block_at s0 (PageList s0) j)))
     \<and> (hb_type (HBlockInfo (clientConfig s0)) \<noteq> hbNone \<longrightarrow>
          (\<forall>j < n. \<forall>x. in_header s0 (block_at s0 (PageList s0) j) x \<longrightarrow> mem t x = 0))
     \<and> (\<not> DebugOn (clientConfig s0) \<longrightarrow>
          (\<forall>x. (\<forall>j < n. \<not> in_header s0 (block_at s0 (PageList s0) j) x
                        \<and> \<not> (block_at s0 (PageList s0) j \<le> x
                              \<and> x < block_at s0 (PageList s0) j + sizeof_ptr))
                \<longrightarrow> mem t x = mem s0 x))"

text \<open>
  What a client has to provide for a working pool: a usable configuration that allows at
  least one page, and storage for the first page that is not null and lies inside the
  address space.
\<close>

definition ctor_ok :: "nat \<Rightarrow> OAConfig \<Rightarrow> addr \<Rightarrow> bool" where
  "ctor_ok objectSize config P \<longleftrightarrow>
     UseCPPMemManager config = False
     \<and> sizeof_ptr \<le> objectSize
     \<and> 0 < unat (ObjectsPerPage config)
     \<and> unat (PadBytes config) < 2 ^ 31
     \<and> header_fits (HBlockInfo config)
     \<and> 0 < MaxPages config
     \<and> 0 < P
     \<and> P + (sizeof_ptr
            + (objectSize + 2 * unat (PadBytes config) + hb_size (HBlockInfo config))
              * unat (ObjectsPerPage config)) \<le> 2 ^ 64"

text \<open>
  The \<open>new\<close> expressions of \<open>configure_header\<close> succeed: this matters for the external
  header only.
\<close>

definition header_new_ok :: "ObjectAllocator \<Rightarrow> string option \<Rightarrow> sysnew \<Rightarrow> bool" where
  "header_new_ok s lbl sys \<longleftrightarrow>
     (hb_type (HBlockInfo (clientConfig s)) = hbExternal \<longrightarrow>
        new_info sys \<noteq> None \<and> (lbl \<noteq> None \<longrightarrow> new_label sys \<noteq> None))"

text \<open>
  The two conditions of the boundary check for a pointer \<open>p\<close> and one page, as the code
  evaluates them: \<open>p\<close> is at or above the page start and at or below the page start plus
  \<open>ObjectsPerPage_\<close> block sizes; and the difference between \<open>p\<close> and the first object
  pointer of the page, taken as an unsigned 64-bit number, is a multiple of the block
  size.
\<close>

definition page_accepts :: "ObjectAllocator \<Rightarrow> addr \<Rightarrow> addr \<Rightarrow> bool" where
  "page_accepts s p page \<longleftrightarrow>
     page \<le> p
     \<and> p \<le> page + calculate_block_size s * unat (ObjectsPerPage (clientConfig s))
     \<and> ((int p - int (page + sizeof_ptr + hb_size (HBlockInfo (clientConfig s))
                        + unat (PadBytes (clientConfig s)))) mod 2 ^ 64)
           mod int (calculate_block_size s) = 0"

text \<open>
  With the external header, the header slot of the block with the object pointer \<open>b\<close>
  holds the address of a live \<open>MemBlockInfo\<close> record; the other header variants have no
  such slot. This is what \<open>Free\<close> needs in order not to fault in \<open>configure_header\<close>.
\<close>

definition record_live :: "ObjectAllocator \<Rightarrow> addr \<Rightarrow> bool" where
  "record_live s b \<longleftrightarrow>
     hb_type (HBlockInfo (clientConfig s)) \<noteq> hbExternal
     \<or> infos s (read_ptr (mem s)
                  (b - (unat (PadBytes (clientConfig s)) + hb_size (HBlockInfo (clientConfig s)))))
         \<noteq> None"

section \<open>Runs of a client that keeps the contract\<close>

text \<open>
  \<open>trace s pages live\<close>: the state \<open>s\<close> is reached from a successful construction by
  successful calls of \<open>Allocate\<close> and \<open>Free\<close>, where every \<open>Free\<close> is given a pointer
  that \<open>Allocate\<close> returned and that has not been freed since, and by the client writing
  into the storage of objects it holds. \<open>pages\<close> lists the pages obtained from the system
  allocator, newest first, and \<open>live\<close> is the set of pointers the client holds. The
  system allocator answers a request for a page with fresh storage.
\<close>

inductive trace :: "ObjectAllocator \<Rightarrow> addr list \<Rightarrow> addr set \<Rightarrow> bool" where
  created:
    "ctor_ok objectSize config P \<Longrightarrow> new_page sys = Some P \<Longrightarrow>
     ObjectAllocator_ctor objectSize config m sys = Returns () s \<Longrightarrow>
     trace s [P] {}"
| allocated:
    "trace s pages live \<Longrightarrow>
     FreeList s \<noteq> 0 \<Longrightarrow>
     Allocate s lbl sys = Some (Returns p s') \<Longrightarrow>
     trace s' pages (insert p live)"
| allocated_new_page:
    "trace s pages live \<Longrightarrow>
     FreeList s = 0 \<Longrightarrow> new_page sys = Some P \<Longrightarrow> fresh_page s pages P \<Longrightarrow>
     Allocate s lbl sys = Some (Returns p s') \<Longrightarrow>
     trace s' (P # pages) (insert p live)"
| freed:
    "trace s pages live \<Longrightarrow> p \<in> live \<Longrightarrow>
     Free s p = Some (Returns () s') \<Longrightarrow>
     trace s' pages (live - {p})"
| written:
    "trace s pages live \<Longrightarrow> p \<in> live \<Longrightarrow> k < ObjectSize (stats s) \<Longrightarrow>
     trace (s\<lparr>mem := (mem s)(p + k := v)\<rparr>) pages live"

text \<open>
  The run continued from the state \<open>s0\<close> (with the pages \<open>pages0\<close> and the allocated
  pointers \<open>live0\<close>) by calls of a client that keeps the contract, none of which is an
  \<open>Allocate\<close> that returns the pointer \<open>p\<close>.
\<close>

inductive later ::
  "addr \<Rightarrow> ObjectAllocator \<Rightarrow> addr list \<Rightarrow> addr set \<Rightarrow>
   ObjectAllocator \<Rightarrow> addr list \<Rightarrow> addr set \<Rightarrow> bool"
  for p :: addr and s0 :: ObjectAllocator and pages0 :: "addr list" and live0 :: "addr set" where
  same:
    "later p s0 pages0 live0 s0 pages0 live0"
| allocated:
    "later p s0 pages0 live0 s pages live \<Longrightarrow>
     FreeList s \<noteq> 0 \<Longrightarrow>
     Allocate s lbl sys = Some (Returns q s') \<Longrightarrow> q \<noteq> p \<Longrightarrow>
     later p s0 pages0 live0 s' pages (insert q live)"
| allocated_new_page:
    "later p s0 pages0 live0 s pages live \<Longrightarrow>
     FreeList s = 0 \<Longrightarrow> new_page sys = Some P \<Longrightarrow> fresh_page s pages P \<Longrightarrow>
     Allocate s lbl sys = Some (Returns q s') \<Longrightarrow> q \<noteq> p \<Longrightarrow>
     later p s0 pages0 live0 s' (P # pages) (insert q live)"
| freed:
    "later p s0 pages0 live0 s pages live \<Longrightarrow> q \<in> live \<Longrightarrow>
     Free s q = Some (Returns () s') \<Longrightarrow>
     later p s0 pages0 live0 s' pages (live - {q})"
| written:
    "later p s0 pages0 live0 s pages live \<Longrightarrow> q \<in> live \<Longrightarrow> k < ObjectSize (stats s) \<Longrightarrow>
     later p s0 pages0 live0 (s\<lparr>mem := (mem s)(q + k := v)\<rparr>) pages live"

text \<open>
  What \<open>DumpMemoryInUse\<close> tests for the block with object pointer \<open>b\<close>: the header of
  the block starts \<open>PadBytes_ + size_\<close> bytes below \<open>b\<close>.
\<close>

definition marked_in_use :: "ObjectAllocator \<Rightarrow> addr \<Rightarrow> bool" where
  "marked_in_use s b \<longleftrightarrow>
     check_leak_in_header s
       (b - (unat (PadBytes (clientConfig s)) + hb_size (HBlockInfo (clientConfig s))))"

section \<open>Sample runs\<close>

text \<open>
  A run on the plain configuration, with the first page at address 4096: the allocator is
  created, one object is allocated (the pointer returned is 4112), freed, freed a second
  time, and, instead of the second free, allocated again.
\<close>

definition plain_created :: ObjectAllocator where
  "plain_created = state_of (ObjectAllocator_ctor 8 plain_config zero_mem (page_at 4096))"

definition plain_allocated :: ObjectAllocator where
  "plain_allocated = state_of (the (Allocate plain_created None (page_at 4096)))"

definition plain_freed :: ObjectAllocator where
  "plain_freed = state_of (the (Free plain_allocated 4112))"

definition plain_freed_twice :: ObjectAllocator where
  "plain_freed_twice = state_of (the (Free plain_freed 4112))"

definition plain_reallocated :: ObjectAllocator where
  "plain_reallocated = state_of (the (Allocate plain_freed None (page_at 4096)))"

text \<open>
  The same run with debug mode off: no pointer is validated, and the object is freed
  twice.
\<close>

definition quiet_config :: OAConfig where
  "quiet_config = plain_config\<lparr>DebugOn := False\<rparr>"

definition quiet_created :: ObjectAllocator where
  "quiet_created = state_of (ObjectAllocator_ctor 8 quiet_config zero_mem (page_at 4096))"

definition quiet_allocated :: ObjectAllocator where
  "quiet_allocated = state_of (the (Allocate quiet_created None (page_at 4096)))"

definition quiet_freed :: ObjectAllocator where
  "quiet_freed = state_of (the (Free quiet_allocated 4112))"

definition quiet_freed_twice :: ObjectAllocator where
  "quiet_freed_twice = state_of (the (Free quiet_freed 4112))"

text \<open>
  Runs with two bytes of padding and no header. In the first the allocator is created in
  debug mode, an object is allocated (the pointer returned is 4118) and the client
  overwrites the byte directly behind the eight bytes of the object. In the second the
  allocator is created with debug mode off, debug mode is switched on by
  \<open>SetDebugState\<close>, and then an object is allocated.
\<close>

definition padded_config :: OAConfig where
  "padded_config = plain_config\<lparr>PadBytes := 2\<rparr>"

definition padded_created :: ObjectAllocator where
  "padded_created = state_of (ObjectAllocator_ctor 8 padded_config zero_mem (page_at 4096))"

definition padded_allocated :: ObjectAllocator where
  "padded_allocated = state_of (the (Allocate padded_created None (page_at 4096)))"

definition padded_overrun :: ObjectAllocator where
  "padded_overrun = padded_allocated\<lparr>mem := (mem padded_allocated)(4126 := 0)\<rparr>"




text \<open>
  A run with the basic header and two bytes of padding: an object is allocated (the
  pointer returned is 4128) and the client overwrites the byte directly behind it.
\<close>

definition basic_created :: ObjectAllocator where
  "basic_created = state_of (ObjectAllocator_ctor 8 basic_config zero_mem (page_at 4096))"

definition basic_allocated :: ObjectAllocator where
  "basic_allocated = state_of (the (Allocate basic_created None (page_at 4096)))"

definition basic_overrun :: ObjectAllocator where
  "basic_overrun = basic_allocated\<lparr>mem := (mem basic_allocated)(4136 := 0)\<rparr>"

text \<open>
  A run with the external header: an object is allocated, and the system allocator places
  its \<open>MemBlockInfo\<close> record at the address \<open>0x20000\<close>.
\<close>

definition info_at :: "addr \<Rightarrow> addr \<Rightarrow> sysnew" where
  "info_at P I = \<lparr>new_page = Some P, new_object = None, new_info = Some I, new_label = None\<rparr>"

definition external_created :: ObjectAllocator where
  "external_created = state_of (ObjectAllocator_ctor 8 external_config zero_mem (page_at 4096))"

definition external_allocated :: ObjectAllocator where
  "external_allocated = state_of (the (Allocate external_created None (info_at 4096 0x20000)))"

text \<open>
  An allocator for objects of 12 bytes on the plain configuration: the block size is 12,
  the blocks of the page at 4096 have the object pointers 4104 and 4116.
\<close>

definition wide_created :: ObjectAllocator where
  "wide_created = state_of (ObjectAllocator_ctor 12 plain_config zero_mem (page_at 4096))"




section \<open>Outcomes and the fields a call leaves alone\<close>


lemma outcome_collapse:
  "thrown r = None \<Longrightarrow> \<not> faulted r \<Longrightarrow> r = Returns (the (returned r)) (state_of r)"
  by (cases r) simp_all

lemma outcome_unit:
  "thrown (r :: unit outcome) = None \<Longrightarrow> \<not> faulted r \<Longrightarrow> r = Returns () (state_of r)"
  by (cases r) simp_all

lemma configure_header_fields:
  "clientConfig (state_of (configure_header s b al fr lbl sys)) = clientConfig s"
  "stats (state_of (configure_header s b al fr lbl sys)) = stats s"
  "PageList (state_of (configure_header s b al fr lbl sys)) = PageList s"
  "FreeList (state_of (configure_header s b al fr lbl sys)) = FreeList s"
  "blockIter (state_of (configure_header s b al fr lbl sys)) = blockIter s"
  by (simp_all add: configure_header_def Let_def split: HBLOCK_TYPE.splits option.splits)

lemma configure_header_no_throw:
  "thrown (configure_header s b False fr lbl sys) = None"
  by (simp add: configure_header_def Let_def split: HBLOCK_TYPE.splits option.splits)

lemma configure_header_no_fault:
  "al \<or> \<not> fr \<Longrightarrow> \<not> faulted (configure_header s b al fr lbl sys)"
  by (auto simp: configure_header_def Let_def split: HBLOCK_TYPE.splits option.splits)

lemma configure_header_free_faulted:
  "faulted (configure_header s b False True lbl sys) \<longleftrightarrow> \<not> record_live s b"
  by (auto simp: configure_header_def Let_def record_live_def
      split: HBLOCK_TYPE.splits option.splits)

lemma record_live_stats [simp]: "record_live (s\<lparr>stats := st\<rparr>) b = record_live s b"
  by (simp add: record_live_def)

lemma configure_header_free_Returns:
  "record_live s b \<Longrightarrow>
   configure_header s b False True lbl sys
     = Returns () (state_of (configure_header s b False True lbl sys))"
  by (rule outcome_unit) (simp_all add: configure_header_no_throw configure_header_free_faulted)

lemma make_block_fields:
  "clientConfig (snd (make_block s mp)) = clientConfig s"
  "stats (snd (make_block s mp)) = stats s"
  "PageList (snd (make_block s mp)) = PageList s"
  "FreeList (snd (make_block s mp)) = FreeList s"
  "blockIter (snd (make_block s mp)) = blockIter s"
  "infos (snd (make_block s mp)) = infos s"
  by (simp_all add: make_block_def Let_def)

lemma add_to_page_no_throw: "thrown (add_to_page s) = None"
  by (simp add: add_to_page_def Let_def configure_header_no_throw split: prod.splits)

lemma add_to_page_no_fault: "\<not> faulted (add_to_page s)"
  by (simp add: add_to_page_def Let_def configure_header_no_fault split: prod.splits)

lemma add_to_page_Returns: "add_to_page s = Returns () (state_of (add_to_page s))"
  by (rule outcome_unit) (rule add_to_page_no_throw, rule add_to_page_no_fault)

lemma add_to_page_fields:
  "clientConfig (state_of (add_to_page s)) = clientConfig s"
  "stats (state_of (add_to_page s)) = (stats s)\<lparr>FreeObjects := FreeObjects (stats s) + 1\<rparr>"
  "PageList (state_of (add_to_page s)) = PageList s"
  "blockIter (state_of (add_to_page s)) = blockIter s + 1"
  by (simp_all add: add_to_page_def Let_def configure_header_fields make_block_fields split_beta)

lemma segment_loop_step:
  "segment_loop (Suc n) s = segment_loop n (state_of (add_to_page s))"
proof -
  have "segment_loop (Suc n) s =
          (case Returns () (state_of (add_to_page s)) of
             Throws e s' \<Rightarrow> Throws e s'
           | Faults s' \<Rightarrow> Faults s'
           | Returns _ s' \<Rightarrow> segment_loop n s')"
    unfolding segment_loop.simps by (subst add_to_page_Returns) (rule refl)
  then show ?thesis by simp
qed

lemma segment_loop_no_throw: "thrown (segment_loop n s) = None"
proof (induction n arbitrary: s)
  case 0
  show ?case by simp
next
  case (Suc n)
  show ?case by (simp only: segment_loop_step Suc.IH)
qed

lemma segment_loop_no_fault: "\<not> faulted (segment_loop n s)"
proof (induction n arbitrary: s)
  case 0
  show ?case by simp
next
  case (Suc n)
  show ?case by (simp only: segment_loop_step Suc.IH not_False_eq_True)
qed

lemma segment_loop_fields:
  "clientConfig (state_of (segment_loop n s)) = clientConfig s"
  "stats (state_of (segment_loop n s))
     = (stats s)\<lparr>FreeObjects := FreeObjects (stats s) + of_nat n\<rparr>"
  "PageList (state_of (segment_loop n s)) = PageList s"
  "blockIter (state_of (segment_loop n s)) = blockIter s + of_nat n"
proof (induction n arbitrary: s)
  case 0
  { case 1 show ?case by simp }
  { case 2 show ?case by simp }
  { case 3 show ?case by simp }
  { case 4 show ?case by simp }
next
  case (Suc n)
  { case 1 show ?case by (simp only: segment_loop_step Suc.IH add_to_page_fields) }
  { case 2 show ?case by (simp only: segment_loop_step Suc.IH add_to_page_fields) (simp add: add.assoc) }
  { case 3 show ?case by (simp only: segment_loop_step Suc.IH add_to_page_fields) }
  { case 4 show ?case by (simp only: segment_loop_step Suc.IH add_to_page_fields) (simp add: add.assoc) }
qed

lemma case_outcome_unit:
  "thrown (r :: unit outcome) = None \<Longrightarrow> \<not> faulted r \<Longrightarrow>
   (case r of Returns u s' \<Rightarrow> g u s' | Throws e s' \<Rightarrow> f e s' | Faults s' \<Rightarrow> h s')
     = g () (state_of r)"
  by (cases r) simp_all

lemma segment_page_eq:
  "segment_page s =
     (let s' = state_of (segment_loop (unat (ObjectsPerPage (clientConfig s))) (s\<lparr>blockIter := 0\<rparr>))
      in Returns () (s'\<lparr>stats := (stats s')\<lparr>PagesInUse := PagesInUse (stats s') + 1\<rparr>\<rparr>))"
  by (simp add: segment_page_def case_outcome_unit segment_loop_no_throw segment_loop_no_fault
      Let_def)

lemma segment_page_no_throw: "thrown (segment_page s) = None"
  by (simp add: segment_page_eq Let_def)

lemma segment_page_state:
  "state_of (segment_page s) =
     (let s' = state_of (segment_loop (unat (ObjectsPerPage (clientConfig s))) (s\<lparr>blockIter := 0\<rparr>))
      in s'\<lparr>stats := (stats s')\<lparr>PagesInUse := PagesInUse (stats s') + 1\<rparr>\<rparr>)"
  by (simp add: segment_page_eq Let_def)

lemma segment_page_fields:
  "clientConfig (state_of (segment_page s)) = clientConfig s"
  "stats (state_of (segment_page s))
     = (stats s)\<lparr>FreeObjects := FreeObjects (stats s) + ObjectsPerPage (clientConfig s),
                 PagesInUse := PagesInUse (stats s) + 1\<rparr>"
  "PageList (state_of (segment_page s)) = PageList s"
  by (simp_all add: segment_page_state Let_def segment_loop_fields)

lemma segment_page_balanced: "balanced s \<Longrightarrow> balanced (state_of (segment_page s))"
  by (simp add: balanced_def segment_page_fields algebra_simps)

lemma allocate_empty_page_fields:
  "clientConfig (state_of (allocate_empty_page s np)) = clientConfig s"
  "stats (state_of (allocate_empty_page s np)) = stats s"
  "FreeList (state_of (allocate_empty_page s np)) = FreeList s"
  by (simp_all add: allocate_empty_page_def Let_def split: option.splits)

lemma allocate_empty_page_no_fault: "\<not> faulted (allocate_empty_page s np)"
  by (simp add: allocate_empty_page_def Let_def split: option.splits)

lemma allocate_new_page_state:
  "state_of (allocate_new_page s np) =
     (case allocate_empty_page s np of
        Throws e s' \<Rightarrow> s'
      | Faults s' \<Rightarrow> s'
      | Returns _ s' \<Rightarrow> state_of (segment_page s'))"
  by (simp add: allocate_new_page_def split: outcome.splits)

lemma allocate_new_page_balanced:
  assumes "balanced s"
  shows "balanced (state_of (allocate_new_page s np))"
proof (cases "allocate_empty_page s np")
  case (Returns u s')
  have "balanced s'"
    using assms allocate_empty_page_fields [of s np] Returns by (simp add: balanced_def)
  then show ?thesis
    using Returns by (simp add: allocate_new_page_state segment_page_balanced)
next
  case (Throws e s')
  have "balanced s'"
    using assms allocate_empty_page_fields [of s np] Throws by (simp add: balanced_def)
  then show ?thesis using Throws by (simp add: allocate_new_page_state)
next
  case (Faults s')
  then show ?thesis using allocate_empty_page_no_fault [of s np] by simp
qed

lemma take_off_freelist_balanced:
  assumes "balanced s" and "take_off_freelist s lbl sys = Some r"
  shows "balanced (state_of r)"
proof -
  let ?s1 = "s\<lparr>stats := (stats s)
                  \<lparr>FreeObjects := FreeObjects (stats s) - 1,
                   ObjectsInUse := ObjectsInUse (stats s) + 1,
                   MostObjects := MostObjects (stats s) + 1,
                   Allocations := Allocations (stats s) + 1\<rparr>\<rparr>"
  let ?c = "configure_header ?s1 (FreeList ?s1) True False lbl sys"
  have b1: "balanced (state_of ?c)"
    using assms(1) by (simp add: balanced_def configure_header_fields)
  show ?thesis
  proof (cases ?c)
    case (Returns u s2)
    then have "balanced s2" using b1 by simp
    then show ?thesis
      using assms(2) Returns
      by (auto simp: take_off_freelist_def Let_def balanced_def split: if_splits)
  next
    case (Throws e s2)
    then have "balanced s2" using b1 by simp
    then show ?thesis
      using assms(2) Throws
      by (auto simp: take_off_freelist_def Let_def split: if_splits)
  next
    case (Faults s2)
    then show ?thesis
      using assms(2) by (auto simp: take_off_freelist_def Let_def split: if_splits)
  qed
qed

lemma put_on_freelist_balanced:
  assumes "balanced s" and "put_on_freelist s p = Some r"
  shows "balanced (state_of r)"
proof -
  let ?s1 = "s\<lparr>stats := (stats s)
                  \<lparr>Deallocations := Deallocations (stats s) + 1,
                   ObjectsInUse := ObjectsInUse (stats s) - 1,
                   FreeObjects := FreeObjects (stats s) + 1\<rparr>\<rparr>"
  let ?c = "configure_header ?s1 p False True None no_new"
  have b0: "balanced ?s1" using assms(1) by (simp add: balanced_def)
  have b1: "balanced (state_of ?c)"
    using assms(1) by (simp add: balanced_def configure_header_fields)
  have nt: "thrown ?c = None" by (rule configure_header_no_throw)
  from assms(2) consider
      (thr) e where "r = Throws e ?s1"
    | (ret) "r = Returns ()
        (let s3 = (if DebugOn (clientConfig (state_of ?c))
                   then (state_of ?c)\<lparr>mem := memset (mem (state_of ?c)) p FREED_PATTERN
                                               (ObjectSize (stats (state_of ?c)))\<rparr>
                   else state_of ?c)
         in if FreeList s3 = 0
            then s3\<lparr>FreeList := p, mem := write_ptr (mem s3) p 0\<rparr>
            else s3\<lparr>mem := write_ptr (mem s3) p (FreeList s3), FreeList := p\<rparr>)"
    unfolding put_on_freelist_def Let_def using nt
    by (cases ?c) (auto split: option.splits if_splits)
  then show ?thesis
  proof cases
    case thr
    then show ?thesis using b0 by simp
  next
    case ret
    then show ?thesis using b1 by (simp add: Let_def balanced_def)
  qed
qed






lemma allocate_empty_page_throws:
  "PagesInUse (stats s) \<ge> MaxPages (clientConfig s) \<Longrightarrow>
   allocate_empty_page s np = Throws E_NO_PAGES s"
  by (simp add: allocate_empty_page_def)

lemma allocate_empty_page_no_throw:
  "PagesInUse (stats s) < MaxPages (clientConfig s) \<Longrightarrow>
   thrown (allocate_empty_page s (Some P)) = None"
  by (simp add: allocate_empty_page_def Let_def not_le)

lemma allocate_new_page_no_throw:
  "PagesInUse (stats s) < MaxPages (clientConfig s) \<Longrightarrow>
   thrown (allocate_new_page s (Some P)) = None"
  by (simp add: allocate_new_page_def case_outcome_unit allocate_empty_page_no_throw
      allocate_empty_page_no_fault segment_page_no_throw)

lemma segment_page_no_fault: "\<not> faulted (segment_page s)"
  by (simp add: segment_page_eq Let_def)

lemma allocate_new_page_no_fault: "\<not> faulted (allocate_new_page s np)"
  using allocate_empty_page_no_fault [of s np]
  by (cases "allocate_empty_page s np") (simp_all add: allocate_new_page_def segment_page_no_fault)

lemma ctor_no_throw:
  "0 < MaxPages config \<Longrightarrow> new_page sys = Some P \<Longrightarrow>
   thrown (ObjectAllocator_ctor osz config m sys) = None"
  by (simp add: ObjectAllocator_ctor_def Let_def allocate_new_page_no_throw)

lemma ctor_no_fault: "\<not> faulted (ObjectAllocator_ctor osz config m sys)"
  by (simp add: ObjectAllocator_ctor_def Let_def allocate_new_page_no_fault)


section \<open>Bytes and pointers in memory\<close>

lemma memset_apply: "memset m a v n x = (if a \<le> x \<and> x < a + n then v else m x)"
  by (simp add: memset_def)

lemma store_le_apply:
  "store_le m a n v x = (if a \<le> x \<and> x < a + n then of_nat (v div 256 ^ (x - a)) else m x)"
  by (simp add: store_le_def)

lemma load_le_cong:
  "(\<And>k. k < n \<Longrightarrow> m' (a + k) = m (a + k)) \<Longrightarrow> load_le m' a n = load_le m a n"
proof (induction n arbitrary: a)
  case 0
  show ?case by simp
next
  case (Suc n)
  have h: "m' a = m a" using Suc.prems [of 0] by simp
  have "load_le m' (Suc a) n = load_le m (Suc a) n"
  proof (rule Suc.IH)
    fix k assume "k < n"
    then show "m' (Suc a + k) = m (Suc a + k)" using Suc.prems [of "Suc k"] by simp
  qed
  with h show ?case by simp
qed

lemma unat_byte_of_nat: "unat (of_nat v :: byte) = v mod 256"
  by (simp add: unat_of_nat)

lemma load_store_le: "load_le (store_le m a n v) a n = v mod 256 ^ n"
proof (induction n arbitrary: a v)
  case 0
  show ?case by simp
next
  case (Suc n)
  have "load_le (store_le m a (Suc n) v) (Suc a) n
          = load_le (store_le m (Suc a) n (v div 256)) (Suc a) n"
  proof (rule load_le_cong)
    fix k assume "k < n"
    then show "store_le m a (Suc n) v (Suc a + k) = store_le m (Suc a) n (v div 256) (Suc a + k)"
      by (simp add: store_le_apply div_mult2_eq)
  qed
  also have "\<dots> = (v div 256) mod 256 ^ n" by (rule Suc.IH)
  finally have r: "load_le (store_le m a (Suc n) v) (Suc a) n = (v div 256) mod 256 ^ n" .
  have "v mod 256 ^ Suc n = 256 * (v div 256 mod 256 ^ n) + v mod 256"
    using mod_mult2_eq [of v 256 "256 ^ n"] by simp
  moreover have "store_le m a (Suc n) v a = of_nat v" by (simp add: store_le_apply)
  ultimately show ?case using r by (simp add: unat_byte_of_nat)
qed

lemma read_write_ptr: "v < 2 ^ 64 \<Longrightarrow> read_ptr (write_ptr m a v) a = v"
  by (simp add: read_ptr_def write_ptr_def load_store_le sizeof_ptr_def)

lemma read_ptr_cong:
  "(\<And>k. k < sizeof_ptr \<Longrightarrow> m' (a + k) = m (a + k)) \<Longrightarrow> read_ptr m' a = read_ptr m a"
  unfolding read_ptr_def by (rule load_le_cong)

lemma write_ptr_apply:
  "write_ptr m a v x =
     (if a \<le> x \<and> x < a + sizeof_ptr then of_nat (v div 256 ^ (x - a)) else m x)"
  by (simp add: write_ptr_def store_le_apply)

lemma write_ptr_other: "x < a \<or> a + sizeof_ptr \<le> x \<Longrightarrow> write_ptr m a v x = m x"
  by (auto simp: write_ptr_apply)

section \<open>Lists in memory\<close>

lemma path_cong:
  "path m p xs \<Longrightarrow> (\<And>x k. x \<in> set xs \<Longrightarrow> k < sizeof_ptr \<Longrightarrow> m' (x + k) = m (x + k))
   \<Longrightarrow> path m' p xs"
proof (induction xs arbitrary: p)
  case Nil
  then show ?case by simp
next
  case (Cons x xs)
  have "read_ptr m' x = read_ptr m x"
    by (rule read_ptr_cong) (simp add: Cons.prems(2))
  moreover have "path m' (read_ptr m x) xs"
    using Cons.prems by (intro Cons.IH) auto
  ultimately show ?case using Cons.prems(1) by simp
qed

lemma path_not_null: "path m p xs \<Longrightarrow> 0 \<notin> set xs"
  by (induction xs arbitrary: p) auto

lemma path_unique: "path m p xs \<Longrightarrow> path m p ys \<Longrightarrow> xs = ys"
proof (induction xs arbitrary: p ys)
  case Nil
  then show ?case by (cases ys) auto
next
  case (Cons x xs)
  then show ?case by (cases ys) auto
qed

lemma check_multiple_free_path:
  "path m p xs \<Longrightarrow> check_multiple_free m q p = Some (q \<in> set xs)"
proof (induction xs arbitrary: p)
  case Nil
  then show ?case by (subst check_multiple_free.simps) simp
next
  case (Cons x xs)
  then show ?case by (subst check_multiple_free.simps) auto
qed

section \<open>Geometry of pages and blocks\<close>

lemma same_geom_refl: "same_geom s s"
  by (simp add: same_geom_def)

lemma same_geom_trans: "same_geom s t \<Longrightarrow> same_geom t u \<Longrightarrow> same_geom s u"
  by (simp add: same_geom_def)

lemma same_geom_block_size: "same_geom s s' \<Longrightarrow> calculate_block_size s' = calculate_block_size s"
  by (simp add: same_geom_def calculate_block_size_def)

lemma same_geom_page_size: "same_geom s s' \<Longrightarrow> calculate_page_size s' = calculate_page_size s"
  by (simp add: calculate_page_size_def same_geom_block_size) (simp add: same_geom_def)

lemma same_geom_block_at: "same_geom s s' \<Longrightarrow> block_at s' = block_at s"
  by (intro ext) (simp add: block_at_def same_geom_block_size, simp add: same_geom_def)

lemma same_geom_page_blocks: "same_geom s s' \<Longrightarrow> page_blocks s' = page_blocks s"
  by (intro ext) (simp add: page_blocks_def same_geom_block_at, simp add: same_geom_def)

lemma same_geom_all_blocks: "same_geom s s' \<Longrightarrow> all_blocks s' = all_blocks s"
  by (intro ext) (simp add: all_blocks_def same_geom_page_blocks)

lemma same_geom_fresh_page: "same_geom s s' \<Longrightarrow> fresh_page s' = fresh_page s"
  by (intro ext) (simp add: fresh_page_def same_geom_page_size)

lemma same_geom_pages_ok: "same_geom s s' \<Longrightarrow> pages_ok s' pages = pages_ok s pages"
  by (induction pages) (simp_all add: same_geom_fresh_page)

lemma same_geom_config_ok: "same_geom s s' \<Longrightarrow> config_ok s' = config_ok s"
  by (simp add: config_ok_def same_geom_page_size) (simp add: same_geom_def)

lemma same_geom_parts:
  assumes "same_geom s s'"
  shows "in_pads s' = in_pads s" and "in_header s' = in_header s"
    and "in_object s' = in_object s" and "in_block s' = in_block s"
  using assms
  by (auto simp: same_geom_def in_pads_def in_header_def in_object_def in_block_def
      intro!: ext)

lemma block_size_eq:
  assumes "config_ok s"
  shows "calculate_block_size s =
           ObjectSize (stats s) + 2 * unat (PadBytes (clientConfig s))
             + hb_size (HBlockInfo (clientConfig s))"
proof -
  have "unat (PadBytes (clientConfig s)) < 2 ^ 31"
    using assms by (simp add: config_ok_def)
  then have "unat (PadBytes (clientConfig s) * 2) = 2 * unat (PadBytes (clientConfig s))"
    by (simp add: unat_word_ariths)
  then show ?thesis by (simp add: calculate_block_size_def Let_def)
qed

lemma block_size_pos: "config_ok s \<Longrightarrow> 0 < calculate_block_size s"
  by (simp add: block_size_eq) (simp add: config_ok_def sizeof_ptr_def)

lemma mult_step_le: "i < (j::nat) \<Longrightarrow> S * i + S \<le> S * j"
proof -
  assume "i < j"
  then have "Suc i \<le> j" by simp
  then have "S * Suc i \<le> S * j" by (rule mult_le_mono2)
  then show ?thesis by simp
qed

text \<open>The block with object pointer \<open>block_at s P i\<close> starts at \<open>P + 8 + S * i\<close>.\<close>

lemma block_start:
  "block_at s P i - (unat (PadBytes (clientConfig s)) + hb_size (HBlockInfo (clientConfig s)))
     = P + sizeof_ptr + calculate_block_size s * i"
  by (simp add: block_at_def create_offset_def)

lemma block_at_ge:
  "unat (PadBytes (clientConfig s)) + hb_size (HBlockInfo (clientConfig s)) \<le> block_at s P i"
  by (simp add: block_at_def)

lemma block_end:
  assumes "config_ok s"
  shows "block_at s P i + ObjectSize (stats s) + unat (PadBytes (clientConfig s))
           = P + sizeof_ptr + calculate_block_size s * i + calculate_block_size s"
  by (simp add: block_size_eq [OF assms, symmetric] block_at_def create_offset_def)
     (simp add: block_size_eq [OF assms])

lemma block_below_next:
  assumes "config_ok s" and "i < j"
  shows "block_at s P i + ObjectSize (stats s) + unat (PadBytes (clientConfig s))
           \<le> block_at s P j
                - (unat (PadBytes (clientConfig s)) + hb_size (HBlockInfo (clientConfig s)))"
  using mult_step_le [OF assms(2), of "calculate_block_size s"]
  by (simp add: block_start block_end [OF assms(1)])

lemma block_in_page:
  assumes "config_ok s" and "i < unat (ObjectsPerPage (clientConfig s))"
  shows "block_at s P i + ObjectSize (stats s) + unat (PadBytes (clientConfig s))
           \<le> P + calculate_page_size s"
  using mult_step_le [OF assms(2), of "calculate_block_size s"]
  by (simp add: block_end [OF assms(1)] calculate_page_size_def)

lemma all_blocks_iff:
  "b \<in> set (all_blocks s pages) \<longleftrightarrow>
     (\<exists>P \<in> set pages. \<exists>i < unat (ObjectsPerPage (clientConfig s)). b = block_at s P i)"
  by (fastforce simp: all_blocks_def page_blocks_def image_iff)

lemma pages_ok_mem:
  "pages_ok s pages \<Longrightarrow> P \<in> set pages \<Longrightarrow> 0 < P \<and> P + calculate_page_size s \<le> 2 ^ 64"
  by (induction pages) (auto simp: fresh_page_def)

lemma pages_ok_apart:
  "pages_ok s pages \<Longrightarrow> P \<in> set pages \<Longrightarrow> Q \<in> set pages \<Longrightarrow> P \<noteq> Q \<Longrightarrow>
   P + calculate_page_size s \<le> Q \<or> Q + calculate_page_size s \<le> P"
  by (induction pages) (auto simp: fresh_page_def)

lemma page_size_pos: "sizeof_ptr \<le> calculate_page_size s"
  by (simp add: calculate_page_size_def)

lemma pages_ok_distinct: "pages_ok s pages \<Longrightarrow> distinct pages"
proof (induction pages)
  case Nil
  show ?case by simp
next
  case (Cons P pages)
  have "P \<notin> set pages"
  proof
    assume "P \<in> set pages"
    with Cons.prems have "P + calculate_page_size s \<le> P"
      by (auto simp: fresh_page_def)
    with page_size_pos [of s] show False by (simp add: sizeof_ptr_def)
  qed
  with Cons show ?case by simp
qed

text \<open>
  Every block lies inside its page, after the link field of the page; two different
  blocks do not overlap; no block overlaps the link field of any page.
\<close>

lemma block_within_some_page:
  assumes "config_ok s" and "b \<in> set (all_blocks s pages)"
  shows "\<exists>P \<in> set pages.
           P + sizeof_ptr
             \<le> b - (unat (PadBytes (clientConfig s)) + hb_size (HBlockInfo (clientConfig s)))
           \<and> unat (PadBytes (clientConfig s)) + hb_size (HBlockInfo (clientConfig s)) \<le> b
           \<and> b + ObjectSize (stats s) + unat (PadBytes (clientConfig s))
               \<le> P + calculate_page_size s"
proof -
  from assms(2) obtain P i where P: "P \<in> set pages"
    and i: "i < unat (ObjectsPerPage (clientConfig s))" and b: "b = block_at s P i"
    by (auto simp: all_blocks_iff)
  have "P + sizeof_ptr
          \<le> b - (unat (PadBytes (clientConfig s)) + hb_size (HBlockInfo (clientConfig s)))"
    by (simp add: b block_start)
  moreover have "unat (PadBytes (clientConfig s)) + hb_size (HBlockInfo (clientConfig s)) \<le> b"
    by (simp add: b block_at_ge)
  moreover have "b + ObjectSize (stats s) + unat (PadBytes (clientConfig s))
               \<le> P + calculate_page_size s"
    unfolding b by (rule block_in_page [OF assms(1) i])
  ultimately show ?thesis using P by blast
qed

lemma blocks_apart:
  assumes "config_ok s" and "pages_ok s pages"
    and "b \<in> set (all_blocks s pages)" and "c \<in> set (all_blocks s pages)" and "b \<noteq> c"
  shows "b + ObjectSize (stats s) + unat (PadBytes (clientConfig s))
           \<le> c - (unat (PadBytes (clientConfig s)) + hb_size (HBlockInfo (clientConfig s)))
         \<or> c + ObjectSize (stats s) + unat (PadBytes (clientConfig s))
           \<le> b - (unat (PadBytes (clientConfig s)) + hb_size (HBlockInfo (clientConfig s)))"
proof -
  from assms(3) obtain P i where P: "P \<in> set pages"
    and i: "i < unat (ObjectsPerPage (clientConfig s))" and b: "b = block_at s P i"
    by (auto simp: all_blocks_iff)
  from assms(4) obtain Q j where Q: "Q \<in> set pages"
    and j: "j < unat (ObjectsPerPage (clientConfig s))" and c: "c = block_at s Q j"
    by (auto simp: all_blocks_iff)
  show ?thesis
  proof (cases "P = Q")
    case True
    with assms(5) b c have "i \<noteq> j" by auto
    then consider "i < j" | "j < i" by linarith
    then show ?thesis
    proof cases
      case 1
      then show ?thesis using block_below_next [OF assms(1), of i j P] b c True by simp
    next
      case 2
      then show ?thesis using block_below_next [OF assms(1), of j i P] b c True by simp
    qed
  next
    case False
    have bP: "block_at s P i + ObjectSize (stats s) + unat (PadBytes (clientConfig s))
                \<le> P + calculate_page_size s"
      by (rule block_in_page [OF assms(1) i])
    have cQ: "block_at s Q j + ObjectSize (stats s) + unat (PadBytes (clientConfig s))
                \<le> Q + calculate_page_size s"
      by (rule block_in_page [OF assms(1) j])
    have sP: "P + sizeof_ptr \<le> block_at s P i
                - (unat (PadBytes (clientConfig s)) + hb_size (HBlockInfo (clientConfig s)))"
      by (simp add: block_start)
    have sQ: "Q + sizeof_ptr \<le> block_at s Q j
                - (unat (PadBytes (clientConfig s)) + hb_size (HBlockInfo (clientConfig s)))"
      by (simp add: block_start)
    from pages_ok_apart [OF assms(2) P Q False]
    show ?thesis using bP cQ sP sQ unfolding b c by linarith
  qed
qed

lemma page_link_apart:
  assumes "config_ok s" and "pages_ok s pages"
    and "P \<in> set pages" and "b \<in> set (all_blocks s pages)"
  shows "P + sizeof_ptr
           \<le> b - (unat (PadBytes (clientConfig s)) + hb_size (HBlockInfo (clientConfig s)))
         \<or> b + ObjectSize (stats s) + unat (PadBytes (clientConfig s)) \<le> P"
proof -
  from block_within_some_page [OF assms(1,4)] obtain Q where Q: "Q \<in> set pages"
    and lo: "Q + sizeof_ptr
          \<le> b - (unat (PadBytes (clientConfig s)) + hb_size (HBlockInfo (clientConfig s)))"
    and hi: "b + ObjectSize (stats s) + unat (PadBytes (clientConfig s))
               \<le> Q + calculate_page_size s"
    by blast
  show ?thesis
  proof (cases "P = Q")
    case True
    then show ?thesis using lo by simp
  next
    case False
    from pages_ok_apart [OF assms(2,3) Q False] page_size_pos [of s]
    show ?thesis using lo hi by linarith
  qed
qed

lemma block_bounds:
  assumes "config_ok s" and "pages_ok s pages" and "b \<in> set (all_blocks s pages)"
  shows "0 < b" and "b + ObjectSize (stats s) \<le> 2 ^ 64"
proof -
  from block_within_some_page [OF assms(1,3)] obtain Q where Q: "Q \<in> set pages"
    and lo: "Q + sizeof_ptr
          \<le> b - (unat (PadBytes (clientConfig s)) + hb_size (HBlockInfo (clientConfig s)))"
    and hi: "b + ObjectSize (stats s) + unat (PadBytes (clientConfig s))
               \<le> Q + calculate_page_size s"
    by blast
  from lo show "0 < b" by (simp add: sizeof_ptr_def)
  from pages_ok_mem [OF assms(2) Q] hi show "b + ObjectSize (stats s) \<le> 2 ^ 64" by linarith
qed

section \<open>Segmenting a page\<close>

lemma paint_apply:
  "unat (PadBytes (clientConfig s)) \<le> b \<Longrightarrow>
   paint s b m x = (if DebugOn (clientConfig s) \<and> in_pads s b x then PAD_PATTERN else m x)"
  by (auto simp: paint_def memset_apply in_pads_def)

lemma clear_header_apply:
  "unat (PadBytes (clientConfig s)) + hb_size (HBlockInfo (clientConfig s)) \<le> b \<Longrightarrow>
   clear_header s b m x =
     (if hb_type (HBlockInfo (clientConfig s)) \<noteq> hbNone \<and> in_header s b x then 0 else m x)"
  by (auto simp: clear_header_def memset_apply in_header_def)

lemma make_block_eq:
  "make_block s mp =
     (block_at s (PageList s) (unat (blockIter s - (if mp then 1 else 0))),
      s\<lparr>mem := paint s (block_at s (PageList s) (unat (blockIter s - (if mp then 1 else 0))))
                 (mem s)\<rparr>)"
  by (simp add: make_block_def Let_def block_at_def paint_def)

lemma configure_header_init:
  "configure_header s b False False lbl sys = Returns () (s\<lparr>mem := clear_header s b (mem s)\<rparr>)"
  by (simp add: configure_header_def Let_def clear_header_def split: HBLOCK_TYPE.splits)

lemma paint_geom [simp]:
  "paint (s\<lparr>mem := m'\<rparr>) = paint s"
  "paint (s\<lparr>FreeList := f\<rparr>) = paint s"
  "paint (s\<lparr>blockIter := k\<rparr>) = paint s"
  by (simp_all add: paint_def fun_eq_iff)

lemma clear_header_geom [simp]:
  "clear_header (s\<lparr>mem := m'\<rparr>) = clear_header s"
  "clear_header (s\<lparr>FreeList := f\<rparr>) = clear_header s"
  "clear_header (s\<lparr>blockIter := k\<rparr>) = clear_header s"
  "clear_header (s\<lparr>stats := st\<rparr>) = clear_header s"
  by (simp_all add: clear_header_def fun_eq_iff)

lemma block_at_geom [simp]:
  "block_at (s\<lparr>mem := m'\<rparr>) = block_at s"
  "block_at (s\<lparr>FreeList := f\<rparr>) = block_at s"
  "block_at (s\<lparr>blockIter := k\<rparr>) = block_at s"
  by (simp_all add: block_at_def calculate_block_size_def fun_eq_iff)

lemma paint_left_again:
  "(if DebugOn (clientConfig s)
    then memset (paint s b m) (b - unat (PadBytes (clientConfig s))) PAD_PATTERN
           (unat (PadBytes (clientConfig s)))
    else paint s b m) = paint s b m"
proof (rule ext)
  fix x
  show "(if DebugOn (clientConfig s)
    then memset (paint s b m) (b - unat (PadBytes (clientConfig s))) PAD_PATTERN
           (unat (PadBytes (clientConfig s)))
    else paint s b m) x = paint s b m x"
    by (simp add: paint_def memset_apply)
qed

lemma word32_of_nat:
  assumes "n < 2 ^ 32 - 1"
  shows "unat (of_nat n :: 32 word) = n"
    and "(of_nat n = (0 :: 32 word)) = (n = 0)"
    and "n \<noteq> 0 \<Longrightarrow> unat (of_nat n - 1 :: 32 word) = n - 1"
proof -
  have "n < 2 ^ 32" using assms by simp
  then have "n mod 2 ^ 32 = n" by (rule mod_less)
  then show u: "unat (of_nat n :: 32 word) = n" by (simp add: unat_of_nat)
  show z: "(of_nat n = (0 :: 32 word)) = (n = 0)"
  proof
    assume "of_nat n = (0 :: 32 word)"
    then have "unat (of_nat n :: 32 word) = 0" by simp
    then show "n = 0" by (simp only: u)
  next
    assume "n = 0"
    then show "of_nat n = (0 :: 32 word)" by simp
  qed
  assume "n \<noteq> 0"
  then have "of_nat n \<noteq> (0 :: 32 word)" by (simp only: z) simp
  then have "unat (of_nat n - 1 :: 32 word) = unat (of_nat n :: 32 word) - 1"
    by (rule unat_minus_one)
  then show "unat (of_nat n - 1 :: 32 word) = n - 1" by (simp only: u)
qed

lemma add_to_page_first:
  assumes "blockIter t = 0"
  shows "add_to_page t =
     Returns ()
       (t\<lparr>FreeList := block_at t (PageList t) 0,
          stats := (stats t)\<lparr>FreeObjects := FreeObjects (stats t) + 1\<rparr>,
          blockIter := 1,
          mem := clear_header t (block_at t (PageList t) 0)
                   (write_ptr (paint t (block_at t (PageList t) 0) (mem t))
                      (block_at t (PageList t) 0) 0)\<rparr>)"
proof -
  let ?b = "block_at t (PageList t) 0"
  let ?s1 = "t\<lparr>mem := paint t ?b (mem t)\<rparr>"
  have mb: "make_block t False = (?b, ?s1)"
    using assms by (simp add: make_block_eq)
  have pl: "(if DebugOn (clientConfig ?s1)
             then ?s1\<lparr>mem := memset (mem ?s1) (?b - unat (PadBytes (clientConfig ?s1)))
                                 PAD_PATTERN (unat (PadBytes (clientConfig ?s1)))\<rparr>
             else ?s1) = ?s1"
    using paint_left_again [of t ?b "mem t"] by (cases "DebugOn (clientConfig t)") simp_all
  show ?thesis
    unfolding add_to_page_def mb Let_def prod.case pl
    using assms by (simp add: configure_header_init)
qed

lemma add_to_page_next:
  assumes "blockIter t = of_nat n" and "n < 2 ^ 32 - 1" and "n \<noteq> 0"
  shows "add_to_page t =
     Returns ()
       (t\<lparr>FreeList := block_at t (PageList t) n,
          stats := (stats t)\<lparr>FreeObjects := FreeObjects (stats t) + 1\<rparr>,
          blockIter := of_nat n + 1,
          mem := clear_header t (block_at t (PageList t) n)
                   (write_ptr
                      (paint t (block_at t (PageList t) (n - 1))
                         (paint t (block_at t (PageList t) n) (mem t)))
                      (block_at t (PageList t) n)
                      (block_at t (PageList t) (n - 1)))\<rparr>)"
proof -
  let ?b = "block_at t (PageList t) n"
  let ?s1 = "t\<lparr>mem := paint t ?b (mem t)\<rparr>"
  let ?p = "block_at t (PageList t) (n - 1)"
  have mb: "make_block t False = (?b, ?s1)"
    using assms(1) word32_of_nat(1) [OF assms(2)] by (simp add: make_block_eq)
  have mp: "make_block ?s1 True = (?p, ?s1\<lparr>mem := paint t ?p (mem ?s1)\<rparr>)"
    using assms(1) word32_of_nat(3) [OF assms(2,3)] by (simp add: make_block_eq)
  have nz: "blockIter ?s1 \<noteq> 0"
    using assms(1,3) word32_of_nat(2) [OF assms(2)] by simp
  show ?thesis
    unfolding add_to_page_def mb Let_def prod.case mp if_P [OF nz]
    using assms(1) by (simp add: configure_header_init)
qed

lemma paint_twice: "paint s b (paint s b m) = paint s b m"
  by (rule ext) (simp add: paint_def memset_def)

lemma add_to_page_eq:
  assumes "blockIter t = of_nat n" and "n < 2 ^ 32 - 1"
  shows "add_to_page t =
     Returns ()
       (t\<lparr>FreeList := block_at t (PageList t) n,
          stats := (stats t)\<lparr>FreeObjects := FreeObjects (stats t) + 1\<rparr>,
          blockIter := of_nat (Suc n),
          mem := clear_header t (block_at t (PageList t) n)
                   (write_ptr
                      (paint t (block_at t (PageList t) (n - 1))
                         (paint t (block_at t (PageList t) n) (mem t)))
                      (block_at t (PageList t) n)
                      (if n = 0 then 0 else block_at t (PageList t) (n - 1)))\<rparr>)"
proof (cases "n = 0")
  case True
  then have "blockIter t = 0" using assms(1) by simp
  then show ?thesis using True by (simp add: add_to_page_first paint_twice)
next
  case False
  then show ?thesis using add_to_page_next [OF assms False] by simp
qed

lemma check_corruption_iff:
  assumes "unat (PadBytes (clientConfig s)) \<le> b"
  shows "check_corruption s b \<longleftrightarrow> \<not> pads_ok s b"
proof
  assume "check_corruption s b"
  then obtain i where i: "i < unat (PadBytes (clientConfig s))"
    and "mem s (b - unat (PadBytes (clientConfig s)) + i) \<noteq> PAD_PATTERN
         \<or> mem s (b + ObjectSize (stats s) + i) \<noteq> PAD_PATTERN"
    by (auto simp: check_corruption_def Let_def list_ex_iff)
  then consider "mem s (b - unat (PadBytes (clientConfig s)) + i) \<noteq> PAD_PATTERN"
    | "mem s (b + ObjectSize (stats s) + i) \<noteq> PAD_PATTERN" by blast
  then show "\<not> pads_ok s b"
  proof cases
    case 1
    have "in_pads s b (b - unat (PadBytes (clientConfig s)) + i)"
      unfolding in_pads_def using i assms by linarith
    with 1 show ?thesis by (auto simp: pads_ok_def)
  next
    case 2
    have "in_pads s b (b + ObjectSize (stats s) + i)"
      using i by (simp add: in_pads_def)
    with 2 show ?thesis by (auto simp: pads_ok_def)
  qed
next
  assume "\<not> pads_ok s b"
  then obtain x where x: "in_pads s b x" and ne: "mem s x \<noteq> PAD_PATTERN"
    by (auto simp: pads_ok_def)
  from x consider "b - unat (PadBytes (clientConfig s)) \<le> x \<and> x < b"
    | "b + ObjectSize (stats s) \<le> x
        \<and> x < b + ObjectSize (stats s) + unat (PadBytes (clientConfig s))"
    by (auto simp: in_pads_def)
  then show "check_corruption s b"
  proof cases
    case 1
    let ?i = "x - (b - unat (PadBytes (clientConfig s)))"
    have "?i < unat (PadBytes (clientConfig s))" using 1 assms by linarith
    moreover have "b - unat (PadBytes (clientConfig s)) + ?i = x" using 1 by simp
    ultimately show ?thesis
      using ne by (auto simp: check_corruption_def Let_def list_ex_iff intro!: bexI [of _ ?i])
  next
    case 2
    let ?i = "x - (b + ObjectSize (stats s))"
    have "?i < unat (PadBytes (clientConfig s))" using 2 by linarith
    moreover have "b + ObjectSize (stats s) + ?i = x" using 2 by simp
    ultimately show ?thesis
      using ne by (auto simp: check_corruption_def Let_def list_ex_iff intro!: bexI [of _ ?i])
  qed
qed

lemma same_geom_paint: "same_geom s s' \<Longrightarrow> paint s' = paint s"
  by (intro ext) (simp add: paint_def same_geom_def)

lemma same_geom_clear_header: "same_geom s s' \<Longrightarrow> clear_header s' = clear_header s"
  by (intro ext) (simp add: clear_header_def same_geom_def)

lemma pad_le_block_at: "unat (PadBytes (clientConfig s)) \<le> block_at s P i"
  by (simp add: block_at_def)

lemma add_to_page_mem:
  assumes "blockIter t = of_nat n" and "n < 2 ^ 32 - 1"
  shows "mem (state_of (add_to_page t)) x =
     (if hb_type (HBlockInfo (clientConfig t)) \<noteq> hbNone
         \<and> in_header t (block_at t (PageList t) n) x then 0
      else if block_at t (PageList t) n \<le> x \<and> x < block_at t (PageList t) n + sizeof_ptr
      then of_nat ((if n = 0 then 0 else block_at t (PageList t) (n - 1))
                     div 256 ^ (x - block_at t (PageList t) n))
      else if DebugOn (clientConfig t)
              \<and> (in_pads t (block_at t (PageList t) (n - 1)) x
                 \<or> in_pads t (block_at t (PageList t) n) x)
      then PAD_PATTERN
      else mem t x)"
  by (auto simp: add_to_page_eq [OF assms] clear_header_apply [OF block_at_ge]
      write_ptr_apply paint_apply [OF pad_le_block_at])

lemma add_to_page_state:
  assumes "blockIter t = of_nat n" and "n < 2 ^ 32 - 1"
  shows "FreeList (state_of (add_to_page t)) = block_at t (PageList t) n"
    and "infos (state_of (add_to_page t)) = infos t"
  by (simp_all add: add_to_page_eq [OF assms])

lemma add_to_page_geom: "same_geom t (state_of (add_to_page t))"
  by (simp add: same_geom_def add_to_page_fields)

section \<open>The parts of a block\<close>

lemma header_in_block:
  "in_header s b x \<Longrightarrow> in_block s b x"
  unfolding in_header_def in_block_def by linarith

lemma pads_in_block:
  "unat (PadBytes (clientConfig s)) + hb_size (HBlockInfo (clientConfig s)) \<le> b \<Longrightarrow>
   in_pads s b x \<Longrightarrow> in_block s b x"
  unfolding in_pads_def in_block_def by linarith

lemma object_in_block: "in_object s b x \<Longrightarrow> in_block s b x"
  unfolding in_object_def in_block_def by linarith

lemma link_in_object:
  "config_ok s \<Longrightarrow> b \<le> x \<Longrightarrow> x < b + sizeof_ptr \<Longrightarrow> in_object s b x"
  unfolding in_object_def config_ok_def by linarith

lemma header_not_pads:
  "unat (PadBytes (clientConfig s)) + hb_size (HBlockInfo (clientConfig s)) \<le> b \<Longrightarrow>
   in_header s b x \<Longrightarrow> \<not> in_pads s b x"
  unfolding in_pads_def in_header_def by linarith

lemma header_not_object: "in_header s b x \<Longrightarrow> \<not> in_object s b x"
  unfolding in_object_def in_header_def by linarith

lemma pads_not_object: "in_pads s b x \<Longrightarrow> \<not> in_object s b x"
  unfolding in_object_def in_pads_def by linarith

lemma in_block_iff:
  assumes "config_ok s"
  shows "in_block s (block_at s P i) x \<longleftrightarrow>
           P + sizeof_ptr + calculate_block_size s * i \<le> x
           \<and> x < P + sizeof_ptr + calculate_block_size s * i + calculate_block_size s"
  unfolding in_block_def block_start block_end [OF assms] by simp

lemma in_block_same_page:
  assumes "config_ok s" and "in_block s (block_at s P i) x" and "in_block s (block_at s P j) x"
  shows "i = j"
proof (rule ccontr)
  assume "i \<noteq> j"
  then consider "i < j" | "j < i" by linarith
  then show False
  proof cases
    case 1
    from mult_step_le [OF 1, of "calculate_block_size s"] assms(2,3)
    show False unfolding in_block_iff [OF assms(1)] by linarith
  next
    case 2
    from mult_step_le [OF 2, of "calculate_block_size s"] assms(2,3)
    show False unfolding in_block_iff [OF assms(1)] by linarith
  qed
qed

lemma unat32_bound: "n < unat (w :: 32 word) \<Longrightarrow> n < 2 ^ 32 - 1"
proof -
  assume "n < unat w"
  moreover have "unat w < 2 ^ 32" using unsigned_less [of w, where 'a = nat] by simp
  ultimately show ?thesis by linarith
qed

lemma seg_inv_step:
  assumes inv: "seg_inv s0 n t" and cfg: "config_ok s0"
    and n: "n < unat (ObjectsPerPage (clientConfig s0))"
    and top: "PageList s0 + calculate_page_size s0 \<le> 2 ^ 64"
  shows "seg_inv s0 (Suc n) (state_of (add_to_page t))"
proof -
  define P where "P = PageList s0"
  define b where "b = block_at s0 P"
  define t' where "t' = state_of (add_to_page t)"
  define prev where "prev = (if n = 0 then 0 else b (n - 1))"
  have g: "same_geom s0 t" and PL: "PageList t = P" and bi: "blockIter t = of_nat n"
    using inv unfolding seg_inv_def P_def by blast+
  have fr: "mem t x = mem s0 x"
    if "x < P + sizeof_ptr \<or> P + sizeof_ptr + calculate_block_size s0 * n \<le> x" for x
    using inv that unfolding seg_inv_def P_def by blast
  have pth: "path (mem t) prev (rev (map b [0 ..< n]))"
    using inv unfolding seg_inv_def P_def b_def prev_def by blast
  have n32: "n < 2 ^ 32 - 1" using n by (rule unat32_bound)
  have cfgt: "config_ok t" using same_geom_config_ok [OF g] cfg by simp
  have geo: "block_at t = block_at s0" "in_pads t = in_pads s0" "in_header t = in_header s0"
    "clientConfig t = clientConfig s0"
    using same_geom_block_at [OF g] same_geom_parts [OF g] g by (simp_all add: same_geom_def)
  have A: "mem t' x =
     (if hb_type (HBlockInfo (clientConfig s0)) \<noteq> hbNone \<and> in_header s0 (b n) x then 0
      else if b n \<le> x \<and> x < b n + sizeof_ptr
      then of_nat (prev div 256 ^ (x - b n))
      else if DebugOn (clientConfig s0) \<and> (in_pads s0 (b (n - 1)) x \<or> in_pads s0 (b n) x)
      then PAD_PATTERN
      else mem t x)" for x
    unfolding t'_def add_to_page_mem [OF bi n32] geo PL b_def prev_def by simp
  have ge: "unat (PadBytes (clientConfig s0)) + hb_size (HBlockInfo (clientConfig s0)) \<le> b j" for j
    unfolding b_def by (rule block_at_ge)
  have prevblk: "in_block s0 (b (n - 1)) x \<Longrightarrow> in_block s0 (b n) x \<Longrightarrow> n = 0" for x
    unfolding b_def using in_block_same_page [OF cfg, of P "n - 1" x n] by simp
  \<comment> \<open>outside the new block and the paddings of the previous one, nothing changes\<close>
  have U: "mem t' x = mem t x"
    if "\<not> in_block s0 (b n) x" and "\<not> (DebugOn (clientConfig s0) \<and> in_pads s0 (b (n - 1)) x)" for x
  proof -
    have "\<not> in_header s0 (b n) x" using that(1) header_in_block by blast
    moreover have "\<not> (b n \<le> x \<and> x < b n + sizeof_ptr)"
      using that(1) link_in_object [OF cfg] object_in_block by blast
    moreover have "\<not> in_pads s0 (b n) x" using that(1) pads_in_block [OF ge] by blast
    ultimately show ?thesis using that(2) by (auto simp: A)
  qed
  have W: "mem t' x = PAD_PATTERN"
    if "DebugOn (clientConfig s0)" and "in_pads s0 (b j) x" and "j = n \<or> (j = n - 1 \<and> 0 < n)" for x j
  proof -
    have nh: "\<not> in_header s0 (b n) x"
    proof
      assume h: "in_header s0 (b n) x"
      show False
      proof (cases "j = n")
        case True
        then show False using h that(2) header_not_pads [OF ge] by blast
      next
        case False
        then have "j = n - 1" "0 < n" using that(3) by auto
        then show False
          using prevblk [of x] h that(2) header_in_block pads_in_block [OF ge] by auto
      qed
    qed
    have nl: "\<not> (b n \<le> x \<and> x < b n + sizeof_ptr)"
    proof
      assume l: "b n \<le> x \<and> x < b n + sizeof_ptr"
      then have o: "in_object s0 (b n) x" using link_in_object [OF cfg] by blast
      show False
      proof (cases "j = n")
        case True
        then show False using o that(2) pads_not_object by blast
      next
        case False
        then have "j = n - 1" "0 < n" using that(3) by auto
        then show False
          using prevblk [of x] o that(2) object_in_block pads_in_block [OF ge] by auto
      qed
    qed
    have "in_pads s0 (b (n - 1)) x \<or> in_pads s0 (b n) x" using that(2,3) by auto
    then show ?thesis using nh nl that(1) by (auto simp: A)
  qed
  have X: "mem t' x = 0"
    if "hb_type (HBlockInfo (clientConfig s0)) \<noteq> hbNone" and "in_header s0 (b n) x" for x
    using that by (auto simp: A)
  have older: "\<not> in_block s0 (b n) x" if "j < n" and "in_block s0 (b j) x" for j x
    using in_block_same_page [OF cfg, of P j x n] that unfolding b_def by auto
  have rp: "read_ptr (mem t') (b n) = prev"
  proof -
    have "read_ptr (mem t') (b n) = read_ptr (write_ptr (mem t) (b n) prev) (b n)"
    proof (rule read_ptr_cong)
      fix k assume k: "k < sizeof_ptr"
      have "\<not> in_header s0 (b n) (b n + k)"
        using ge [of n] unfolding in_header_def by linarith
      then show "mem t' (b n + k) = write_ptr (mem t) (b n) prev (b n + k)"
        using k by (auto simp: A write_ptr_apply)
    qed
    moreover have "prev < 2 ^ 64"
    proof (cases "n = 0")
      case True
      then show ?thesis by (simp add: prev_def)
    next
      case False
      then have "n - 1 < unat (ObjectsPerPage (clientConfig s0))" using n by simp
      from block_in_page [OF cfg this, of P] top
      have "b (n - 1) < 2 ^ 64" unfolding b_def P_def using cfg
        by (simp add: config_ok_def sizeof_ptr_def)
      then show ?thesis using False by (simp add: prev_def)
    qed
    ultimately show ?thesis by (simp add: read_write_ptr)
  qed
  have c1: "same_geom s0 t'"
    unfolding t'_def using g add_to_page_geom by (rule same_geom_trans)
  have c2: "PageList t' = PageList s0"
    unfolding t'_def using PL by (simp add: add_to_page_fields P_def)
  have c3: "infos t' = infos s0"
    unfolding t'_def using inv by (simp add: add_to_page_state [OF bi n32] seg_inv_def)
  have c4: "blockIter t' = of_nat (Suc n)"
    unfolding t'_def using bi by (simp add: add_to_page_fields)
  have c5: "stats t' = (stats s0)\<lparr>FreeObjects := FreeObjects (stats s0) + of_nat (Suc n)\<rparr>"
    unfolding t'_def using inv by (simp add: add_to_page_fields seg_inv_def add.assoc)
  have c6: "mem t' x = mem s0 x"
    if "x < P + sizeof_ptr \<or> P + sizeof_ptr + calculate_block_size s0 * Suc n \<le> x" for x
  proof -
    have nb: "\<not> in_block s0 (b j) x" if "j \<le> n" for j
    proof -
      have "calculate_block_size s0 * j \<le> calculate_block_size s0 * n"
        using that by (rule mult_le_mono2)
      moreover have "calculate_block_size s0 * Suc n
                       = calculate_block_size s0 * n + calculate_block_size s0" by simp
      ultimately show ?thesis
        using \<open>x < P + sizeof_ptr \<or> P + sizeof_ptr + calculate_block_size s0 * Suc n \<le> x\<close>
        unfolding b_def in_block_iff [OF cfg] by linarith
    qed
    have "\<not> in_pads s0 (b (n - 1)) x" using nb [of "n - 1"] pads_in_block [OF ge] by auto
    then have "mem t' x = mem t x" using U nb [of n] by blast
    moreover have "mem t x = mem s0 x" using that by (intro fr) auto
    ultimately show ?thesis by simp
  qed
  have c7: "FreeList t' = b n"
    unfolding t'_def by (simp add: add_to_page_state [OF bi n32] geo PL b_def)
  have c8: "path (mem t') (b n) (rev (map b [0 ..< Suc n]))"
  proof -
    have "path (mem t') prev (rev (map b [0 ..< n]))"
      using pth
    proof (rule path_cong)
      fix y k assume y: "y \<in> set (rev (map b [0 ..< n]))" and k: "k < sizeof_ptr"
      then obtain j where j: "j < n" and yj: "y = b j" by auto
      have o: "in_object s0 (b j) (b j + k)" using k by (intro link_in_object [OF cfg]) auto
      then have "\<not> in_block s0 (b n) (b j + k)" using older [OF j] object_in_block by blast
      moreover have "\<not> in_pads s0 (b (n - 1)) (b j + k)"
      proof
        assume p: "in_pads s0 (b (n - 1)) (b j + k)"
        then have "in_block s0 (b (n - 1)) (b j + k)" by (rule pads_in_block [OF ge])
        moreover have "in_block s0 (b j) (b j + k)" using o by (rule object_in_block)
        ultimately have "n - 1 = j"
          unfolding b_def using in_block_same_page [OF cfg] by blast
        then show False using p o pads_not_object by blast
      qed
      ultimately show "mem t' (y + k) = mem t (y + k)" unfolding yj using U by blast
    qed
    moreover have "0 < b n" using ge [of n] cfg unfolding b_def block_at_def create_offset_def
      by (simp add: sizeof_ptr_def)
    ultimately show ?thesis using rp by simp
  qed
  have c9: "pads_ok t' (b j)" if d: "DebugOn (clientConfig s0)" and j: "j < Suc n" for j
    unfolding pads_ok_def
  proof (intro allI impI)
    fix x assume x: "in_pads t' (b j) x"
    then have x0: "in_pads s0 (b j) x" using same_geom_parts(1) [OF c1] by simp
    show "mem t' x = PAD_PATTERN"
    proof (cases "j = n \<or> (j = n - 1 \<and> 0 < n)")
      case True
      then show ?thesis using W [OF d x0] by blast
    next
      case False
      then have jn: "j < n" and jp: "j \<noteq> n - 1" using j by auto
      have ib: "in_block s0 (b j) x" using x0 by (rule pads_in_block [OF ge])
      have "\<not> in_block s0 (b n) x" using older [OF jn ib] .
      moreover have "\<not> in_pads s0 (b (n - 1)) x"
      proof
        assume "in_pads s0 (b (n - 1)) x"
        then have "in_block s0 (b (n - 1)) x" by (rule pads_in_block [OF ge])
        then show False using ib jp in_block_same_page [OF cfg] unfolding b_def by blast
      qed
      ultimately have "mem t' x = mem t x" using U by blast
      moreover have "pads_ok t (b j)" using inv d jn by (simp add: seg_inv_def b_def P_def)
      ultimately show ?thesis using x0 geo by (simp add: pads_ok_def)
    qed
  qed
  have c10: "mem t' x = 0"
    if h: "hb_type (HBlockInfo (clientConfig s0)) \<noteq> hbNone" and j: "j < Suc n"
      and x: "in_header s0 (b j) x" for j x
  proof (cases "j = n")
    case True
    then show ?thesis using X [OF h] x by simp
  next
    case False
    then have jn: "j < n" using j by simp
    have ib: "in_block s0 (b j) x" using x by (rule header_in_block)
    have "\<not> in_block s0 (b n) x" using older [OF jn ib] .
    moreover have "\<not> in_pads s0 (b (n - 1)) x"
    proof
      assume p: "in_pads s0 (b (n - 1)) x"
      then have "in_block s0 (b (n - 1)) x" by (rule pads_in_block [OF ge])
      then have "n - 1 = j" using ib in_block_same_page [OF cfg] unfolding b_def by blast
      then show False using p x header_not_pads [OF ge] by blast
    qed
    ultimately have "mem t' x = mem t x" using U by blast
    moreover have "mem t x = 0" using inv h jn x by (simp add: seg_inv_def b_def P_def)
    ultimately show ?thesis by simp
  qed
  have c11: "mem t' x = mem s0 x"
    if nd: "\<not> DebugOn (clientConfig s0)"
      and x: "\<forall>j < Suc n. \<not> in_header s0 (b j) x \<and> \<not> (b j \<le> x \<and> x < b j + sizeof_ptr)" for x
  proof -
    have "mem t' x = mem t x" using nd x by (auto simp: A)
    moreover have "mem t x = mem s0 x"
      using inv nd x unfolding seg_inv_def P_def b_def by auto
    ultimately show ?thesis by simp
  qed
  show ?thesis
    unfolding seg_inv_def t'_def [symmetric] P_def [symmetric] b_def [symmetric]
    using c1 c2 c3 c4 c5 c6 c7 c8 c9 c10 c11 by (simp add: P_def)
qed

lemma segment_loop_last:
  "state_of (segment_loop (Suc n) s) = state_of (add_to_page (state_of (segment_loop n s)))"
proof (induction n arbitrary: s)
  case 0
  show ?case by (simp only: segment_loop_step) simp
next
  case (Suc n)
  have "state_of (segment_loop (Suc (Suc n)) s)
          = state_of (segment_loop (Suc n) (state_of (add_to_page s)))"
    by (simp only: segment_loop_step)
  also have "\<dots> = state_of (add_to_page (state_of (segment_loop n (state_of (add_to_page s)))))"
    by (rule Suc.IH)
  also have "\<dots> = state_of (add_to_page (state_of (segment_loop (Suc n) s)))"
    by (simp only: segment_loop_step)
  finally show ?case .
qed

lemma seg_inv_start: "blockIter s0 = 0 \<Longrightarrow> seg_inv s0 0 s0"
  by (simp add: seg_inv_def same_geom_refl)

lemma seg_inv_loop:
  assumes "blockIter s0 = 0" and "config_ok s0"
    and "PageList s0 + calculate_page_size s0 \<le> 2 ^ 64"
  shows "n \<le> unat (ObjectsPerPage (clientConfig s0)) \<Longrightarrow>
         seg_inv s0 n (state_of (segment_loop n s0))"
proof (induction n)
  case 0
  show ?case using seg_inv_start [OF assms(1)] by simp
next
  case (Suc n)
  then have "seg_inv s0 n (state_of (segment_loop n s0))"
    and "n < unat (ObjectsPerPage (clientConfig s0))" by simp_all
  then have "seg_inv s0 (Suc n) (state_of (add_to_page (state_of (segment_loop n s0))))"
    using assms(2,3) by (intro seg_inv_step)
  then show ?case by (simp only: segment_loop_last)
qed

lemma block_at_mono:
  assumes "config_ok s" and "i < j"
  shows "block_at s P i < block_at s P j"
proof -
  have "0 < calculate_block_size s" using assms(1) by (rule block_size_pos)
  then have "calculate_block_size s * i < calculate_block_size s * j"
    using assms(2) by simp
  then show ?thesis by (simp add: block_at_def)
qed

lemma distinct_page_blocks: "config_ok s \<Longrightarrow> distinct (page_blocks s P)"
proof -
  assume c: "config_ok s"
  have "inj_on (block_at s P) {0 ..< unat (ObjectsPerPage (clientConfig s))}"
  proof (rule inj_onI)
    fix i j assume "block_at s P i = block_at s P j"
    then show "i = j"
      using block_at_mono [OF c, of i j P] block_at_mono [OF c, of j i P]
      by (cases i j rule: linorder_cases) simp_all
  qed
  then show ?thesis by (simp add: page_blocks_def distinct_map)
qed

lemma pads_ok_cong:
  assumes "same_geom s s'" and "\<And>x. in_pads s b x \<Longrightarrow> mem s' x = mem s x"
  shows "pads_ok s' b = pads_ok s b"
  using assms(2) same_geom_parts(1) [OF assms(1)] by (auto simp: pads_ok_def)

section \<open>A new page\<close>

lemma allocate_empty_page_eq:
  assumes "PagesInUse (stats s) < MaxPages (clientConfig s)"
  shows "allocate_empty_page s (Some P) =
     Returns ()
       (s\<lparr>PageList := P,
          mem := write_ptr (if DebugOn (clientConfig s)
                            then memset (mem s) P UNALLOCATED_PATTERN (PageSize (stats s))
                            else mem s) P (PageList s)\<rparr>)"
  using assms by (simp add: allocate_empty_page_def Let_def not_le)

lemma oa_invD:
  assumes "oa_gen w s pages fl"
  shows "config_ok s" and "pages_ok s pages" and "path (mem s) (PageList s) pages"
    and "path (mem s) (FreeList s) fl" and "distinct fl"
    and "set fl \<subseteq> set (all_blocks s pages)"
    and "FreeObjects (stats s) = of_nat (length fl)"
    and "PagesInUse (stats s) = of_nat (length pages)"
    and "balanced s"
    and "w \<Longrightarrow> DebugOn (clientConfig s) \<Longrightarrow> b \<in> set (all_blocks s pages) \<Longrightarrow> \<not> check_corruption s b"
  using assms unfolding oa_gen_def balanced_def by blast+

lemma path_head_bound:
  assumes "path m p xs" and "\<And>x. x \<in> set xs \<Longrightarrow> x < B" and "0 < B"
  shows "p < B"
  using assms by (cases xs) auto

lemma allocate_new_page_inv:
  assumes inv: "oa_gen w s pages []" and fresh: "fresh_page s pages P"
    and room: "PagesInUse (stats s) < MaxPages (clientConfig s)"
  defines "s' \<equiv> state_of (allocate_new_page s (Some P))"
  shows "allocate_new_page s (Some P) = Returns () s'"
    and "oa_gen w s' (P # pages) (rev (page_blocks s P))"
    and "same_geom s s'"
    and "\<And>x. x < P \<or> P + calculate_page_size s \<le> x \<Longrightarrow> mem s' x = mem s x"
    and "infos s' = infos s"
    and "hb_type (HBlockInfo (clientConfig s)) \<noteq> hbNone \<Longrightarrow> b \<in> set (page_blocks s P) \<Longrightarrow>
         in_header s b x \<Longrightarrow> mem s' x = 0"
    and "\<not> DebugOn (clientConfig s) \<Longrightarrow> P + sizeof_ptr \<le> y \<Longrightarrow>
         \<forall>c \<in> set (page_blocks s P). \<not> in_header s c y \<and> \<not> (c \<le> y \<and> y < c + sizeof_ptr) \<Longrightarrow>
         mem s' y = mem s y"
proof -
  define N where "N = unat (ObjectsPerPage (clientConfig s))"
  define sa where "sa = s\<lparr>PageList := P,
          mem := write_ptr (if DebugOn (clientConfig s)
                            then memset (mem s) P UNALLOCATED_PATTERN (PageSize (stats s))
                            else mem s) P (PageList s)\<rparr>"
  define s0 where "s0 = sa\<lparr>blockIter := 0\<rparr>"
  define t where "t = state_of (segment_loop N s0)"
  note I = oa_invD [OF inv]
  have cfg: "config_ok s" by (rule I)
  have psz: "PageSize (stats s) = calculate_page_size s" using cfg by (simp add: config_ok_def)
  have Ppos: "0 < P" and Ptop: "P + calculate_page_size s \<le> 2 ^ 64"
    and Papart: "\<And>Q. Q \<in> set pages \<Longrightarrow>
                   P + calculate_page_size s \<le> Q \<or> Q + calculate_page_size s \<le> P"
    using fresh by (auto simp: fresh_page_def)
  have Npos: "0 < N" using cfg by (simp add: config_ok_def N_def)
  have ae: "allocate_empty_page s (Some P) = Returns () sa"
    unfolding sa_def by (rule allocate_empty_page_eq [OF room])
  have g0: "same_geom s s0" by (simp add: same_geom_def s0_def sa_def)
  have cfg0: "config_ok s0" using same_geom_config_ok [OF g0] cfg by simp
  have sizes0: "calculate_page_size s0 = calculate_page_size s"
    "calculate_block_size s0 = calculate_block_size s" "block_at s0 = block_at s"
    "clientConfig s0 = clientConfig s"
    using same_geom_page_size [OF g0] same_geom_block_size [OF g0] same_geom_block_at [OF g0] g0
    by (simp_all add: same_geom_def)
  have PL0: "PageList s0 = P" and bi0: "blockIter s0 = 0" by (simp_all add: s0_def sa_def)
  have "seg_inv s0 N (state_of (segment_loop N s0))"
    using bi0 cfg0
  proof (rule seg_inv_loop)
    show "PageList s0 + calculate_page_size s0 \<le> 2 ^ 64" using Ptop by (simp only: PL0 sizes0)
    show "N \<le> unat (ObjectsPerPage (clientConfig s0))" by (simp add: N_def sizes0)
  qed
  then have SI: "seg_inv s0 N t" by (simp add: t_def)
  have sp: "segment_page sa = Returns () (t\<lparr>stats := (stats t)\<lparr>PagesInUse := PagesInUse (stats t) + 1\<rparr>\<rparr>)"
    by (simp add: segment_page_eq Let_def t_def s0_def N_def sa_def)
  have eq: "allocate_new_page s (Some P)
              = Returns () (t\<lparr>stats := (stats t)\<lparr>PagesInUse := PagesInUse (stats t) + 1\<rparr>\<rparr>)"
    by (simp add: allocate_new_page_def ae sp)
  then have s': "s' = t\<lparr>stats := (stats t)\<lparr>PagesInUse := PagesInUse (stats t) + 1\<rparr>\<rparr>"
    by (simp add: s'_def)
  show "allocate_new_page s (Some P) = Returns () s'" by (simp add: eq s')
  have gt: "same_geom s0 t" and PLt: "PageList t = P" and inft: "infos t = infos s0"
    and statst: "stats t = (stats s0)\<lparr>FreeObjects := FreeObjects (stats s0) + of_nat N\<rparr>"
    and FLt: "FreeList t = block_at s P (N - 1)"
    and ptht: "path (mem t) (block_at s P (N - 1)) (rev (map (block_at s P) [0 ..< N]))"
    using SI Npos unfolding seg_inv_def PL0 sizes0 by auto
  have frt: "mem t x = mem s0 x"
    if "x < P + sizeof_ptr \<or> P + sizeof_ptr + calculate_block_size s * N \<le> x" for x
    using SI that unfolding seg_inv_def PL0 sizes0 by blast
  have padst: "pads_ok t (block_at s P j)" if "DebugOn (clientConfig s)" and "j < N" for j
    using SI that unfolding seg_inv_def PL0 sizes0 by blast
  have hdrt: "mem t x = 0"
    if "hb_type (HBlockInfo (clientConfig s)) \<noteq> hbNone" and "j < N"
      and "in_header s0 (block_at s P j) x" for j x
    using SI that unfolding seg_inv_def PL0 sizes0 by blast
  have g': "same_geom s s'"
    using same_geom_trans [OF g0 gt] by (simp add: same_geom_def s')
  show "same_geom s s'" by (rule g')
  have mem': "mem s' = mem t" by (simp add: s')
  have cps: "calculate_page_size s = sizeof_ptr + calculate_block_size s * N"
    by (simp add: calculate_page_size_def N_def)
  have out: "mem s' x = mem s x" if "x < P \<or> P + calculate_page_size s \<le> x" for x
  proof -
    have "mem t x = mem s0 x" using that by (intro frt) (auto simp: cps)
    moreover have "mem s0 x = mem s x"
      using that by (auto simp: s0_def sa_def write_ptr_apply memset_apply psz cps)
    ultimately show ?thesis by (simp add: mem')
  qed
  show "\<And>x. x < P \<or> P + calculate_page_size s \<le> x \<Longrightarrow> mem s' x = mem s x" by (rule out)
  show "infos s' = infos s" by (simp add: s' inft s0_def sa_def)
  show "mem s' x = 0"
    if "hb_type (HBlockInfo (clientConfig s)) \<noteq> hbNone" and "b \<in> set (page_blocks s P)"
      and "in_header s b x"
  proof -
    from that(2) obtain j where "j < N" and "b = block_at s P j"
      by (auto simp: page_blocks_def N_def)
    then show ?thesis
      using hdrt [OF that(1), of j x] that(3) same_geom_parts(2) [OF g0] by (simp add: mem')
  qed
  show "mem s' y = mem s y"
    if nd: "\<not> DebugOn (clientConfig s)" and y: "P + sizeof_ptr \<le> y"
      and c: "\<forall>c \<in> set (page_blocks s P). \<not> in_header s c y \<and> \<not> (c \<le> y \<and> y < c + sizeof_ptr)"
  proof -
    have "\<forall>j < N. \<not> in_header s0 (block_at s P j) y
            \<and> \<not> (block_at s P j \<le> y \<and> y < block_at s P j + sizeof_ptr)"
      using c same_geom_parts(2) [OF g0] by (simp add: page_blocks_def N_def)
    then have "mem t y = mem s0 y"
      using SI nd unfolding seg_inv_def PL0 sizes0 by blast
    moreover have "mem s0 y = mem s y"
      using nd y by (simp add: s0_def sa_def write_ptr_apply)
    ultimately show ?thesis by (simp add: mem')
  qed
  \<comment> \<open>the invariant\<close>
  have plist: "PageList s < 2 ^ 64"
  proof (rule path_head_bound [OF I(3)])
    fix Q assume "Q \<in> set pages"
    from pages_ok_mem [OF I(2) this] page_size_pos [of s]
    show "Q < 2 ^ 64" unfolding sizeof_ptr_def by linarith
  qed simp
  have linkP: "read_ptr (mem s') P = PageList s"
  proof -
    have "read_ptr (mem s') P = read_ptr (mem s0) P"
    proof (rule read_ptr_cong)
      fix k assume "k < sizeof_ptr"
      then show "mem s' (P + k) = mem s0 (P + k)" unfolding mem' by (intro frt) simp
    qed
    also have "\<dots> = PageList s"
      using read_write_ptr [OF plist] by (simp add: s0_def sa_def)
    finally show ?thesis .
  qed
  have pathP: "path (mem s') (PageList s) pages"
    using I(3)
  proof (rule path_cong)
    fix Q k assume Q: "Q \<in> set pages" and k: "k < sizeof_ptr"
    have "sizeof_ptr \<le> calculate_page_size s" by (rule page_size_pos)
    with Papart [OF Q] k show "mem s' (Q + k) = mem s (Q + k)" by (intro out) linarith
  qed
  have i3: "path (mem s') (PageList s') (P # pages)"
    using Ppos linkP pathP by (simp add: s' PLt)
  have fl: "rev (page_blocks s P) = rev (map (block_at s P) [0 ..< N])"
    by (simp add: page_blocks_def N_def)
  have i4: "path (mem s') (FreeList s') (rev (page_blocks s P))"
    using ptht by (simp add: s' FLt fl)
  have i5: "distinct (rev (page_blocks s P))"
    using distinct_page_blocks [OF cfg] by simp
  have ab: "all_blocks s' = all_blocks s" by (rule same_geom_all_blocks [OF g'])
  have i6: "set (rev (page_blocks s P)) \<subseteq> set (all_blocks s' (P # pages))"
    by (simp add: ab all_blocks_def)
  have "FreeObjects (stats s) = 0" using I(7) by simp
  then have i7: "FreeObjects (stats s') = of_nat (length (rev (page_blocks s P)))"
    by (simp add: s' statst s0_def sa_def page_blocks_def N_def)
  have i8: "PagesInUse (stats s') = of_nat (length (P # pages))"
    using I(8) by (simp add: s' statst s0_def sa_def)
  have "balanced (state_of (allocate_new_page s (Some P)))"
    using I(9) by (rule allocate_new_page_balanced)
  then have i9: "balanced s'" by (simp add: s'_def)
  have i10: "\<not> check_corruption s' c"
    if w: "w" and d: "DebugOn (clientConfig s')" and c: "c \<in> set (all_blocks s' (P # pages))" for c
  proof -
    have ds: "DebugOn (clientConfig s)" using d g' by (simp add: same_geom_def)
    from c consider "c \<in> set (page_blocks s P)" | "c \<in> set (all_blocks s pages)"
      by (auto simp: ab all_blocks_def)
    then have "pads_ok s' c"
    proof cases
      case 1
      then obtain j where j: "j < N" and cj: "c = block_at s P j"
        by (auto simp: page_blocks_def N_def)
      have "pads_ok t c" unfolding cj using ds j by (rule padst)
      moreover have "in_pads s' = in_pads t"
        using same_geom_parts(1) [OF g'] same_geom_parts(1) [OF same_geom_trans [OF g0 gt]]
        by simp
      ultimately show ?thesis by (simp add: pads_ok_def mem')
    next
      case 2
      from block_within_some_page [OF cfg 2] obtain Q where Q: "Q \<in> set pages"
        and lo: "Q + sizeof_ptr
          \<le> c - (unat (PadBytes (clientConfig s)) + hb_size (HBlockInfo (clientConfig s)))"
        and ge: "unat (PadBytes (clientConfig s)) + hb_size (HBlockInfo (clientConfig s)) \<le> c"
        and hi: "c + ObjectSize (stats s) + unat (PadBytes (clientConfig s))
               \<le> Q + calculate_page_size s"
        by blast
      have "pads_ok s' c = pads_ok s c"
      proof (rule pads_ok_cong [OF g'])
        fix x assume "in_pads s c x"
        then have "in_block s c x" by (rule pads_in_block [OF ge])
        then have "Q \<le> x \<and> x < Q + calculate_page_size s"
          using lo hi unfolding in_block_def by linarith
        with Papart [OF Q] show "mem s' x = mem s x" by (intro out) linarith
      qed
      moreover have "pads_ok s c"
        using I(10) [OF w ds 2] check_corruption_iff [of s c] ge by simp
      ultimately show ?thesis by simp
    qed
    moreover have "unat (PadBytes (clientConfig s')) \<le> c"
    proof -
      from c obtain Q i where "c = block_at s' Q i" by (auto simp: all_blocks_iff)
      then show ?thesis by (simp add: pad_le_block_at)
    qed
    ultimately show ?thesis by (simp add: check_corruption_iff)
  qed
  have i1: "config_ok s'" using same_geom_config_ok [OF g'] cfg by simp
  have i2: "pages_ok s' (P # pages)"
    using same_geom_pages_ok [OF g', of "P # pages"] fresh I(2) by simp
  show "oa_gen w s' (P # pages) (rev (page_blocks s P))"
    unfolding oa_gen_def
    using i1 i2 i3 i4 i5 i6 i7 i8 i9 i10 unfolding balanced_def by blast
qed

section \<open>The constructor\<close>

lemma ctor_inv:
  fixes m :: heap and sys :: sysnew
  assumes ok: "ctor_ok osz config P" and np: "new_page sys = Some P"
  defines "s' \<equiv> state_of (ObjectAllocator_ctor osz config m sys)"
  shows "ObjectAllocator_ctor osz config m sys = Returns () s'"
    and "oa_gen w s' [P] (rev (page_blocks s' P))"
    and "clientConfig s' = config" and "ObjectSize (stats s') = osz"
    and "\<And>x. x < P \<or> P + calculate_page_size s' \<le> x \<Longrightarrow> mem s' x = m x"
    and "infos s' = Map.empty"
    and "ObjectsInUse (stats s') = 0" and "MostObjects (stats s') = 0"
    and "Allocations (stats s') = 0" and "Deallocations (stats s') = 0"
    and "hb_type (HBlockInfo config) \<noteq> hbNone \<Longrightarrow> b \<in> set (page_blocks s' P) \<Longrightarrow>
         in_header s' b x \<Longrightarrow> mem s' x = 0"
    and "\<not> DebugOn config \<Longrightarrow> P + sizeof_ptr \<le> y \<Longrightarrow>
         \<forall>c \<in> set (page_blocks s' P). \<not> in_header s' c y \<and> \<not> (c \<le> y \<and> y < c + sizeof_ptr) \<Longrightarrow>
         mem s' y = m y"
proof -
  define s0 where "s0 = \<lparr>clientConfig = config,
                stats = \<lparr>ObjectSize = osz, PageSize = 0, FreeObjects = 0, ObjectsInUse = 0,
                         PagesInUse = 0, MostObjects = 0, Allocations = 0, Deallocations = 0\<rparr>,
                PageList = 0, FreeList = 0, blockIter = 0, mem = m, infos = Map.empty\<rparr>"
  define s1 where "s1 = s0\<lparr>stats := (stats s0)\<lparr>PageSize := calculate_page_size s0\<rparr>\<rparr>"
  have pool: "UseCPPMemManager config = False" using ok by (simp add: ctor_ok_def)
  have e: "ObjectAllocator_ctor osz config m sys = allocate_new_page s1 (Some P)"
    using pool np by (simp add: ObjectAllocator_ctor_def Let_def s1_def s0_def)
  have cps: "calculate_page_size s1 = calculate_page_size s0"
    by (simp add: s1_def calculate_page_size_def calculate_block_size_def)
  have cfg1: "config_ok s1"
    using ok by (simp add: config_ok_def ctor_ok_def cps) (simp add: s1_def s0_def)
  have bs: "calculate_block_size s1
              = osz + 2 * unat (PadBytes config) + hb_size (HBlockInfo config)"
    using block_size_eq [OF cfg1] by (simp add: s1_def s0_def)
  have inv1: "oa_gen w s1 [] []"
    unfolding oa_gen_def using cfg1 by (simp add: all_blocks_def) (simp add: s1_def s0_def)
  have fresh: "fresh_page s1 [] P"
    using ok by (simp add: fresh_page_def ctor_ok_def calculate_page_size_def bs)
       (simp add: s1_def s0_def)
  have room: "PagesInUse (stats s1) < MaxPages (clientConfig s1)"
    using ok by (simp add: ctor_ok_def s1_def s0_def)
  have s': "s' = state_of (allocate_new_page s1 (Some P))" by (simp add: s'_def e)
  note R = allocate_new_page_inv [OF inv1 fresh room, folded s']
  have g: "same_geom s1 s'" by (rule R(3))
  show "ObjectAllocator_ctor osz config m sys = Returns () s'" using R(1) by (simp add: e)
  show "oa_gen w s' [P] (rev (page_blocks s' P))"
    using R(2) same_geom_page_blocks [OF g] by simp
  show "clientConfig s' = config" using g by (simp add: same_geom_def s1_def s0_def)
  show "ObjectSize (stats s') = osz" using g by (simp add: same_geom_def s1_def s0_def)
  show "mem s' x = m x" if "x < P \<or> P + calculate_page_size s' \<le> x" for x
    using R(4) [of x] that same_geom_page_size [OF g] by (simp add: s1_def s0_def)
  show "infos s' = Map.empty" using R(5) by (simp add: s1_def s0_def)
  have st: "stats s' = (stats s1)\<lparr>FreeObjects := FreeObjects (stats s1) + ObjectsPerPage (clientConfig s1),
                 PagesInUse := PagesInUse (stats s1) + 1\<rparr>"
    unfolding s' allocate_new_page_def allocate_empty_page_eq [OF room]
    by (simp add: segment_page_fields)
  show "ObjectsInUse (stats s') = 0" "MostObjects (stats s') = 0"
    "Allocations (stats s') = 0" "Deallocations (stats s') = 0"
    by (simp_all add: st s1_def s0_def)
  show "mem s' x = 0"
    if "hb_type (HBlockInfo config) \<noteq> hbNone" and "b \<in> set (page_blocks s' P)"
      and "in_header s' b x"
    using R(6) [of b x] that same_geom_page_blocks [OF g] same_geom_parts(2) [OF g]
    by (simp add: s1_def s0_def)
  show "mem s' y = m y"
    if "\<not> DebugOn config" and "P + sizeof_ptr \<le> y"
      and "\<forall>c \<in> set (page_blocks s' P). \<not> in_header s' c y \<and> \<not> (c \<le> y \<and> y < c + sizeof_ptr)"
    using R(7) [of y] that same_geom_page_blocks [OF g] same_geom_parts(2) [OF g]
    by (simp add: s1_def s0_def)
qed

section \<open>Headers\<close>

lemma in_header_iff:
  assumes "unat (PadBytes (clientConfig s)) + hb_size (HBlockInfo (clientConfig s)) \<le> b"
  shows "in_header s b x \<longleftrightarrow>
     b - (unat (PadBytes (clientConfig s)) + hb_size (HBlockInfo (clientConfig s))) \<le> x
     \<and> x < b - (unat (PadBytes (clientConfig s)) + hb_size (HBlockInfo (clientConfig s)))
           + hb_size (HBlockInfo (clientConfig s))"
  unfolding in_header_def using assms by linarith

text \<open>\<open>configure_header\<close> writes into the header of the block only.\<close>

lemma configure_header_frame:
  assumes fits: "header_fits (HBlockInfo (clientConfig s))"
    and ge: "unat (PadBytes (clientConfig s)) + hb_size (HBlockInfo (clientConfig s)) \<le> b"
    and x: "\<not> in_header s b x"
  shows "mem (state_of (configure_header s b al fr lbl sys)) x = mem s x"
proof -
  define h where
    "h = b - (unat (PadBytes (clientConfig s)) + hb_size (HBlockInfo (clientConfig s)))"
  have out: "x < h \<or> h + hb_size (HBlockInfo (clientConfig s)) \<le> x"
    using x unfolding in_header_iff [OF ge] h_def by linarith
  show ?thesis
  proof (cases "hb_type (HBlockInfo (clientConfig s))")
    case hbNone
    then show ?thesis by (simp add: configure_header_def)
  next
    case hbBasic
    then have "sizeof_int + sizeof_char \<le> hb_size (HBlockInfo (clientConfig s))"
      using fits by (simp add: header_fits_def)
    then show ?thesis
      using out hbBasic
      by (auto simp: configure_header_def Let_def h_def [symmetric] memset_apply store_le_apply
          sizeof_int_def sizeof_char_def)
  next
    case hbExtended
    then have "hb_additional (HBlockInfo (clientConfig s)) + sizeof_short + sizeof_int + sizeof_char
                 \<le> hb_size (HBlockInfo (clientConfig s))"
      using fits by (simp add: header_fits_def)
    then show ?thesis
      using out hbExtended
      by (auto simp: configure_header_def Let_def h_def [symmetric] memset_apply store_le_apply
          sizeof_int_def sizeof_char_def sizeof_short_def)
  next
    case hbExternal
    then have "sizeof_ptr \<le> hb_size (HBlockInfo (clientConfig s))"
      using fits by (simp add: header_fits_def)
    then show ?thesis
      using out hbExternal
      by (auto simp: configure_header_def Let_def h_def [symmetric] memset_apply write_ptr_apply
          split: option.splits)
  qed
qed

lemma configure_header_alloc_no_throw:
  "header_new_ok s lbl sys \<Longrightarrow> thrown (configure_header s b True False lbl sys) = None"
  by (auto simp: configure_header_def Let_def header_new_ok_def
      split: HBLOCK_TYPE.splits option.splits)

lemma configure_header_geom: "same_geom s (state_of (configure_header s b al fr lbl sys))"
  by (simp add: same_geom_def configure_header_fields)

section \<open>Writing into one block\<close>

text \<open>
  A step that writes into the header and the object of one block only keeps the page list,
  every list of other blocks, all paddings and the headers of the other blocks.
\<close>

lemma block_geq:
  "b \<in> set (all_blocks s pages) \<Longrightarrow>
   unat (PadBytes (clientConfig s)) + hb_size (HBlockInfo (clientConfig s)) \<le> b"
  by (auto simp: all_blocks_iff block_at_ge)

lemma in_block_apart:
  assumes "config_ok s" and "pages_ok s pages"
    and "b \<in> set (all_blocks s pages)" and "c \<in> set (all_blocks s pages)"
    and "in_block s b x" and "in_block s c x"
  shows "b = c"
proof (rule ccontr)
  assume "b \<noteq> c"
  from blocks_apart [OF assms(1-4) this] assms(5,6)
  show False unfolding in_block_def by linarith
qed

lemma one_block_frame:
  assumes cfg: "config_ok s" and pg: "pages_ok s pages"
    and b: "b \<in> set (all_blocks s pages)" and g: "same_geom s s'"
    and frame0: "\<forall>x. \<not> in_header s b x \<longrightarrow> \<not> in_object s b x \<longrightarrow> mem s' x = mem s x"
  shows "path (mem s) p pages \<Longrightarrow> path (mem s') p pages"
    and "path (mem s) q fl \<Longrightarrow> b \<notin> set fl \<Longrightarrow> set fl \<subseteq> set (all_blocks s pages)
         \<Longrightarrow> path (mem s') q fl"
    and "c \<in> set (all_blocks s pages) \<Longrightarrow> pads_ok s' c = pads_ok s c"
    and "c \<in> set (all_blocks s pages) \<Longrightarrow> c \<noteq> b \<Longrightarrow> in_header s c x \<Longrightarrow> mem s' x = mem s x"
proof -
  have frame: "mem s' x = mem s x" if "\<not> in_header s b x" and "\<not> in_object s b x" for x
    using frame0 that by blast
  have outside: "mem s' x = mem s x" if "\<not> in_block s b x" for x
    using that header_in_block object_in_block by (intro frame) blast+
  show "path (mem s') p pages" if "path (mem s) p pages"
    using that
  proof (rule path_cong)
    fix Q k assume Q: "Q \<in> set pages" and k: "k < sizeof_ptr"
    from page_link_apart [OF cfg pg Q b] k
    have "\<not> in_block s b (Q + k)" unfolding in_block_def by linarith
    then show "mem s' (Q + k) = mem s (Q + k)" by (rule outside)
  qed
  show "path (mem s') q fl"
    if "path (mem s) q fl" and nb: "b \<notin> set fl" and sub: "set fl \<subseteq> set (all_blocks s pages)"
    using that(1)
  proof (rule path_cong)
    fix c k assume c: "c \<in> set fl" and k: "k < sizeof_ptr"
    then have cb: "c \<in> set (all_blocks s pages)" and ne: "c \<noteq> b" using nb sub by auto
    have "in_block s c (c + k)"
      using k by (intro object_in_block link_in_object [OF cfg]) simp_all
    then have "\<not> in_block s b (c + k)"
      using in_block_apart [OF cfg pg b cb] ne by blast
    then show "mem s' (c + k) = mem s (c + k)" by (rule outside)
  qed
  show "pads_ok s' c = pads_ok s c" if cb: "c \<in> set (all_blocks s pages)"
  proof (rule pads_ok_cong [OF g])
    fix x assume x: "in_pads s c x"
    show "mem s' x = mem s x"
    proof (cases "c = b")
      case True
      then show ?thesis
        using x header_not_pads [OF block_geq [OF b]] pads_not_object by (intro frame) blast+
    next
      case False
      have "in_block s c x" using x by (rule pads_in_block [OF block_geq [OF cb]])
      then have "\<not> in_block s b x" using in_block_apart [OF cfg pg b cb] False by blast
      then show ?thesis by (rule outside)
    qed
  qed
  show "mem s' x = mem s x"
    if cb: "c \<in> set (all_blocks s pages)" and ne: "c \<noteq> b" and x: "in_header s c x"
  proof -
    have "in_block s c x" using x by (rule header_in_block)
    then have "\<not> in_block s b x" using in_block_apart [OF cfg pg b cb] ne by blast
    then show ?thesis by (rule outside)
  qed
qed

section \<open>Taking a block off the free list\<close>

lemma of_nat_Suc_minus_one: "(of_nat (Suc n) :: 32 word) - 1 = of_nat n"
  by simp

lemma take_off_freelist_inv:
  fixes lbl :: "string option" and sys :: sysnew
  assumes inv: "oa_gen w s pages (b # fl)" and new: "header_new_ok s lbl sys"
  defines "s' \<equiv> state_of (the (take_off_freelist s lbl sys))"
  shows "take_off_freelist s lbl sys = Some (Returns b s')"
    and "oa_gen w s' pages fl"
    and "same_geom s s'"
    and "\<And>x. \<not> in_header s b x \<Longrightarrow> \<not> in_object s b x \<Longrightarrow> mem s' x = mem s x"
    and "stats s' = (stats s)\<lparr>FreeObjects := FreeObjects (stats s) - 1,
                              ObjectsInUse := ObjectsInUse (stats s) + 1,
                              MostObjects := MostObjects (stats s) + 1,
                              Allocations := Allocations (stats s) + 1\<rparr>"
    and "mem s' = (if DebugOn (clientConfig s)
                   then memset (mem (state_of (configure_header
                          (s\<lparr>stats := (stats s)\<lparr>FreeObjects := FreeObjects (stats s) - 1,
                              ObjectsInUse := ObjectsInUse (stats s) + 1,
                              MostObjects := MostObjects (stats s) + 1,
                              Allocations := Allocations (stats s) + 1\<rparr>\<rparr>) b True False lbl sys)))
                          b ALLOCATED_PATTERN (ObjectSize (stats s))
                   else mem (state_of (configure_header
                          (s\<lparr>stats := (stats s)\<lparr>FreeObjects := FreeObjects (stats s) - 1,
                              ObjectsInUse := ObjectsInUse (stats s) + 1,
                              MostObjects := MostObjects (stats s) + 1,
                              Allocations := Allocations (stats s) + 1\<rparr>\<rparr>) b True False lbl sys)))"
proof -
  note I = oa_invD [OF inv]
  define s1 where "s1 = s\<lparr>stats := (stats s)\<lparr>FreeObjects := FreeObjects (stats s) - 1,
                              ObjectsInUse := ObjectsInUse (stats s) + 1,
                              MostObjects := MostObjects (stats s) + 1,
                              Allocations := Allocations (stats s) + 1\<rparr>\<rparr>"
  define s2 where "s2 = state_of (configure_header s1 b True False lbl sys)"
  define s4 where "s4 = (if DebugOn (clientConfig s2)
                         then s2\<lparr>FreeList := read_ptr (mem s2) b,
                                 mem := memset (mem s2) b ALLOCATED_PATTERN (ObjectSize (stats s2))\<rparr>
                         else s2\<lparr>FreeList := read_ptr (mem s2) b\<rparr>)"
  have cfg: "config_ok s" by (rule I)
  have FL: "FreeList s = b" and b0: "b \<noteq> 0" and tl: "path (mem s) (read_ptr (mem s) b) fl"
    using I(4) by auto
  have bb: "b \<in> set (all_blocks s pages)" using I(6) by simp
  have ge: "unat (PadBytes (clientConfig s)) + hb_size (HBlockInfo (clientConfig s)) \<le> b"
    by (rule block_geq [OF bb])
  have new1: "header_new_ok s1 lbl sys" using new by (simp add: header_new_ok_def s1_def)
  have c: "configure_header s1 b True False lbl sys = Returns () s2"
    unfolding s2_def
    by (rule outcome_unit)
       (rule configure_header_alloc_no_throw [OF new1], simp add: configure_header_no_fault)
  have f2: "clientConfig s2 = clientConfig s" "stats s2 = stats s1" "PageList s2 = PageList s"
    "FreeList s2 = b" "blockIter s2 = blockIter s"
    by (simp_all add: s2_def configure_header_fields, simp_all add: s1_def FL)
  have FL1: "FreeList s1 = b" and b1: "FreeList s1 \<noteq> 0" using FL b0 by (simp_all add: s1_def)
  have "take_off_freelist s lbl sys =
          Some (Returns (FreeList s2)
            (if DebugOn (clientConfig (s2\<lparr>FreeList := read_ptr (mem s2) (FreeList s2)\<rparr>))
             then (s2\<lparr>FreeList := read_ptr (mem s2) (FreeList s2)\<rparr>)
                    \<lparr>mem := memset (mem (s2\<lparr>FreeList := read_ptr (mem s2) (FreeList s2)\<rparr>))
                              (FreeList s2) ALLOCATED_PATTERN
                              (ObjectSize (stats (s2\<lparr>FreeList := read_ptr (mem s2) (FreeList s2)\<rparr>)))\<rparr>
             else s2\<lparr>FreeList := read_ptr (mem s2) (FreeList s2)\<rparr>))"
    unfolding take_off_freelist_def Let_def s1_def [symmetric] FL1 c
    using b0 by simp
  also have "\<dots> = Some (Returns b s4)"
    by (simp add: f2 s4_def)
  finally have e: "take_off_freelist s lbl sys = Some (Returns b s4)" .
  then have s': "s' = s4" by (simp add: s'_def)
  show "take_off_freelist s lbl sys = Some (Returns b s')" by (simp add: e s')
  have g: "same_geom s s'" by (simp add: s' s4_def same_geom_def f2 s1_def)
  show "same_geom s s'" by (rule g)
  have m2: "mem s2 x = mem s x" if "\<not> in_header s b x" for x
  proof -
    have "mem s2 x = mem s1 x"
      unfolding s2_def using that cfg ge
      by (intro configure_header_frame) (simp_all add: s1_def config_ok_def in_header_def)
    then show ?thesis by (simp add: s1_def)
  qed
  have frame: "mem s' x = mem s x" if "\<not> in_header s b x" and "\<not> in_object s b x" for x
    using that m2 [of x] by (auto simp: s' s4_def memset_apply in_object_def f2 s1_def)
  show "\<And>x. \<not> in_header s b x \<Longrightarrow> \<not> in_object s b x \<Longrightarrow> mem s' x = mem s x"
    by (rule frame)
  show st: "stats s' = (stats s)\<lparr>FreeObjects := FreeObjects (stats s) - 1,
                              ObjectsInUse := ObjectsInUse (stats s) + 1,
                              MostObjects := MostObjects (stats s) + 1,
                              Allocations := Allocations (stats s) + 1\<rparr>"
    by (simp add: s' s4_def f2 s1_def)
  show "mem s' = (if DebugOn (clientConfig s)
                   then memset (mem (state_of (configure_header
                          (s\<lparr>stats := (stats s)\<lparr>FreeObjects := FreeObjects (stats s) - 1,
                              ObjectsInUse := ObjectsInUse (stats s) + 1,
                              MostObjects := MostObjects (stats s) + 1,
                              Allocations := Allocations (stats s) + 1\<rparr>\<rparr>) b True False lbl sys)))
                          b ALLOCATED_PATTERN (ObjectSize (stats s))
                   else mem (state_of (configure_header
                          (s\<lparr>stats := (stats s)\<lparr>FreeObjects := FreeObjects (stats s) - 1,
                              ObjectsInUse := ObjectsInUse (stats s) + 1,
                              MostObjects := MostObjects (stats s) + 1,
                              Allocations := Allocations (stats s) + 1\<rparr>\<rparr>) b True False lbl sys)))"
    by (simp add: s' s4_def f2 s2_def [symmetric] s1_def [symmetric]) (simp add: s1_def)
  \<comment> \<open>the invariant\<close>
  have link: "read_ptr (mem s2) b = read_ptr (mem s) b"
  proof (rule read_ptr_cong)
    fix k assume "k < sizeof_ptr"
    then have "\<not> in_header s b (b + k)" unfolding in_header_def by linarith
    then show "mem s2 (b + k) = mem s (b + k)" by (rule m2)
  qed
  have FL': "FreeList s' = read_ptr (mem s) b" by (simp add: s' s4_def link)
  have "\<forall>x. \<not> in_header s b x \<longrightarrow> \<not> in_object s b x \<longrightarrow> mem s' x = mem s x"
    using frame by blast
  note F = one_block_frame [OF cfg I(2) bb g this]
  have nb: "b \<notin> set fl" and dfl: "distinct fl" using I(5) by auto
  have sub: "set fl \<subseteq> set (all_blocks s pages)" using I(6) by simp
  have ab: "all_blocks s' = all_blocks s" by (rule same_geom_all_blocks [OF g])
  have i1: "config_ok s'" using same_geom_config_ok [OF g] cfg by simp
  have i2: "pages_ok s' pages" using same_geom_pages_ok [OF g] I(2) by simp
  have "PageList s' = PageList s" by (simp add: s' s4_def f2)
  then have i3: "path (mem s') (PageList s') pages" using F(1) [OF I(3)] by simp
  have i4: "path (mem s') (FreeList s') fl" unfolding FL' using tl nb sub by (rule F(2))
  have i7: "FreeObjects (stats s') = of_nat (length fl)"
    using I(7) by (simp add: st)
  have i8: "PagesInUse (stats s') = of_nat (length pages)" using I(8) by (simp add: st)
  have "balanced (state_of (Returns b s'))"
    using I(9) \<open>take_off_freelist s lbl sys = Some (Returns b s')\<close>
    by (rule take_off_freelist_balanced)
  then have i9: "balanced s'" by simp
  have i10: "\<not> check_corruption s' c"
    if w: "w" and d: "DebugOn (clientConfig s')" and c: "c \<in> set (all_blocks s' pages)" for c
  proof -
    have cs: "c \<in> set (all_blocks s pages)" using c by (simp add: ab)
    have ds: "DebugOn (clientConfig s)" using d g by (simp add: same_geom_def)
    have "pads_ok s c" using I(10) [OF w ds cs] check_corruption_iff [of s c] block_geq [OF cs] by simp
    then have "pads_ok s' c" using F(3) [OF cs] by simp
    moreover have "unat (PadBytes (clientConfig s')) \<le> c"
      using block_geq [OF c] by simp
    ultimately show ?thesis by (simp add: check_corruption_iff)
  qed
  show "oa_gen w s' pages fl"
    unfolding oa_gen_def
    using i1 i2 i3 i4 dfl sub i7 i8 i9 i10 unfolding balanced_def ab by blast
qed

section \<open>The boundary check\<close>

lemma page_accepts_iff:
  assumes "0 < calculate_block_size s"
  shows "page_accepts s p Q \<longleftrightarrow>
           \<not> check_out_of_page s p Q \<and> check_wrong_offset s p Q = Some False"
  using assms
  by (auto simp: page_accepts_def check_out_of_page_def check_wrong_offset_def Let_def
      calculate_page_size_def create_offset_def)

lemma check_wrong_offset_Some:
  "0 < calculate_block_size s \<Longrightarrow> \<exists>w. check_wrong_offset s p Q = Some w"
  by (auto simp: check_wrong_offset_def Let_def)

lemma check_bad_location_loop_path:
  assumes "0 < calculate_block_size s"
  shows "path (mem s) pl pages \<Longrightarrow>
         check_bad_location_loop s p pl thr =
           Some (if \<exists>Q \<in> set pages. page_accepts s p Q then False else thr \<or> pages \<noteq> [])"
proof (induction pages arbitrary: pl thr)
  case Nil
  then show ?case by (subst check_bad_location_loop.simps) simp
next
  case (Cons Q pages)
  then have pl: "pl = Q" "pl \<noteq> 0" and rest: "path (mem s) (read_ptr (mem s) Q) pages" by auto
  note IH = Cons.IH [OF rest, of True]
  from check_wrong_offset_Some [OF assms, of p Q] obtain w
    where w: "check_wrong_offset s p Q = Some w" by blast
  show ?case
  proof (cases "page_accepts s p Q")
    case True
    then have "\<not> check_out_of_page s p Q" "check_wrong_offset s p Q = Some False"
      using page_accepts_iff [OF assms] by blast+
    then show ?thesis
      using True pl by (subst check_bad_location_loop.simps) simp
  next
    case False
    then have "check_out_of_page s p Q \<or> w"
      using page_accepts_iff [OF assms, of p Q] w by auto
    then have "check_bad_location_loop s p pl thr
                 = check_bad_location_loop s p (read_ptr (mem s) Q) True"
      using pl w by (subst check_bad_location_loop.simps) auto
    then show ?thesis using IH False by simp
  qed
qed

lemma check_bad_location_path:
  assumes "0 < calculate_block_size s" and "path (mem s) pl pages"
  shows "check_bad_location s p pl =
           Some (pages \<noteq> [] \<and> (\<forall>Q \<in> set pages. \<not> page_accepts s p Q))"
  using check_bad_location_loop_path [OF assms, of p False]
  by (auto simp: check_bad_location_def)

text \<open>The object pointer of a block passes the boundary check of its page.\<close>

lemma block_accepted:
  assumes cfg: "config_ok s" and i: "i < unat (ObjectsPerPage (clientConfig s))"
    and top: "Q + calculate_page_size s \<le> 2 ^ 64"
  shows "page_accepts s (block_at s Q i) Q"
proof -
  let ?S = "calculate_block_size s"
  let ?N = "unat (ObjectsPerPage (clientConfig s))"
  have step: "?S * i + ?S \<le> ?S * ?N" using i by (rule mult_step_le)
  have S: "?S = ObjectSize (stats s) + 2 * unat (PadBytes (clientConfig s))
                 + hb_size (HBlockInfo (clientConfig s))"
    by (rule block_size_eq [OF cfg])
  have o8: "sizeof_ptr \<le> ObjectSize (stats s)" using cfg by (simp add: config_ok_def)
  have b: "block_at s Q i = Q + sizeof_ptr + ?S * i
             + (hb_size (HBlockInfo (clientConfig s)) + unat (PadBytes (clientConfig s)))"
    by (simp add: block_at_def create_offset_def)
  have 1: "Q \<le> block_at s Q i" by (simp add: b)
  have 2: "block_at s Q i \<le> Q + ?S * ?N"
    unfolding b using step S o8 by linarith
  have "?S * i < 2 ^ 64"
    using top step block_size_pos [OF cfg] unfolding calculate_page_size_def by linarith
  then have "int (?S * i) < int (2 ^ 64)" by (simp only: of_nat_less_iff)
  then have "int (?S * i) < 2 ^ 64" by simp
  then have "int (?S * i) mod 2 ^ 64 = int (?S * i)" by (intro mod_pos_pos_trivial) simp_all
  moreover have "int (block_at s Q i)
                   - int (Q + sizeof_ptr + hb_size (HBlockInfo (clientConfig s))
                            + unat (PadBytes (clientConfig s)))
                 = int (?S * i)"
    unfolding b by simp
  ultimately have 3: "((int (block_at s Q i)
                   - int (Q + sizeof_ptr + hb_size (HBlockInfo (clientConfig s))
                            + unat (PadBytes (clientConfig s)))) mod 2 ^ 64) mod int ?S = 0"
    by simp
  show ?thesis unfolding page_accepts_def using 1 2 3 by blast
qed

section \<open>The validation of a pointer\<close>

lemma check_freelist_path:
  assumes "0 < calculate_block_size s" and "path (mem s) (FreeList s) fl"
    and "path (mem s) (PageList s) pages"
  shows "check_freelist s p =
     Some (if PadBytes (clientConfig s) \<noteq> 0 \<and> check_corruption s p then Some E_CORRUPTED_BLOCK
           else if p \<in> set fl then Some E_MULTIPLE_FREE
           else if pages \<noteq> [] \<and> (\<forall>Q \<in> set pages. \<not> page_accepts s p Q)
           then Some E_BAD_BOUNDARY
           else None)"
  unfolding check_freelist_def Let_def
    check_multiple_free_path [OF assms(2)] check_bad_location_path [OF assms(1,3)]
  by (auto split: bool.splits)

lemma stats_only_geom:
  "same_geom s (s\<lparr>stats := (stats s)\<lparr>Deallocations := d, ObjectsInUse := u, FreeObjects := f\<rparr>\<rparr>)"
  by (simp add: same_geom_def)

lemma same_geom_page_accepts: "same_geom s s' \<Longrightarrow> page_accepts s' = page_accepts s"
  by (intro ext) (simp add: page_accepts_def same_geom_block_size, simp add: same_geom_def)

lemma check_corruption_cong:
  "same_geom s s' \<Longrightarrow> mem s' = mem s \<Longrightarrow> check_corruption s' p = check_corruption s p"
  by (simp add: check_corruption_def same_geom_def)

lemma put_on_freelist_eq:
  assumes "(if DebugOn (clientConfig s)
            then check_freelist
                   (s\<lparr>stats := (stats s)\<lparr>Deallocations := Deallocations (stats s) + 1,
                        ObjectsInUse := ObjectsInUse (stats s) - 1,
                        FreeObjects := FreeObjects (stats s) + 1\<rparr>\<rparr>) p
            else Some None) = Some None"
    and rec: "record_live s p"
  shows "put_on_freelist s p =
     Some (Returns ()
       (let s2 = state_of (configure_header
                   (s\<lparr>stats := (stats s)\<lparr>Deallocations := Deallocations (stats s) + 1,
                        ObjectsInUse := ObjectsInUse (stats s) - 1,
                        FreeObjects := FreeObjects (stats s) + 1\<rparr>\<rparr>) p False True None no_new);
            m3 = (if DebugOn (clientConfig s)
                  then memset (mem s2) p FREED_PATTERN (ObjectSize (stats s)) else mem s2)
        in s2\<lparr>mem := write_ptr m3 p (FreeList s), FreeList := p\<rparr>))"
proof -
  define s1 where "s1 = s\<lparr>stats := (stats s)\<lparr>Deallocations := Deallocations (stats s) + 1,
                        ObjectsInUse := ObjectsInUse (stats s) - 1,
                        FreeObjects := FreeObjects (stats s) + 1\<rparr>\<rparr>"
  define s2 where "s2 = state_of (configure_header s1 p False True None no_new)"
  have "record_live s1 p" using rec by (simp add: s1_def)
  then have c: "configure_header s1 p False True None no_new = Returns () s2"
    unfolding s2_def by (rule configure_header_free_Returns)
  have f2: "clientConfig s2 = clientConfig s" "stats s2 = stats s1" "FreeList s2 = FreeList s"
    by (simp_all add: s2_def configure_header_fields, simp_all add: s1_def)
  have chk: "(if DebugOn (clientConfig s1) then check_freelist s1 p else Some None) = Some None"
    using assms(1) by (auto simp: s1_def split: if_splits)
  have "put_on_freelist s p =
     Some (Returns ()
       (let s3 = (if DebugOn (clientConfig s2)
                  then s2\<lparr>mem := memset (mem s2) p FREED_PATTERN (ObjectSize (stats s2))\<rparr>
                  else s2)
        in if FreeList s3 = 0
           then s3\<lparr>FreeList := p, mem := write_ptr (mem s3) p 0\<rparr>
           else s3\<lparr>mem := write_ptr (mem s3) p (FreeList s3), FreeList := p\<rparr>))"
    unfolding put_on_freelist_def s1_def [symmetric] Let_def chk c by simp
  also have "\<dots> = Some (Returns ()
       (let m3 = (if DebugOn (clientConfig s)
                  then memset (mem s2) p FREED_PATTERN (ObjectSize (stats s)) else mem s2)
        in s2\<lparr>mem := write_ptr m3 p (FreeList s), FreeList := p\<rparr>))"
    by (simp add: Let_def f2) (simp add: s1_def)
  finally show ?thesis by (simp add: Let_def s2_def s1_def)
qed

section \<open>Putting a block on the free list\<close>

lemma put_on_freelist_throw:
  assumes "DebugOn (clientConfig s)"
    and "check_freelist
           (s\<lparr>stats := (stats s)\<lparr>Deallocations := Deallocations (stats s) + 1,
                ObjectsInUse := ObjectsInUse (stats s) - 1,
                FreeObjects := FreeObjects (stats s) + 1\<rparr>\<rparr>) p = Some (Some e)"
  shows "put_on_freelist s p =
     Some (Throws e
       (s\<lparr>stats := (stats s)\<lparr>Deallocations := Deallocations (stats s) + 1,
            ObjectsInUse := ObjectsInUse (stats s) - 1,
            FreeObjects := FreeObjects (stats s) + 1\<rparr>\<rparr>))"
  using assms by (simp add: put_on_freelist_def Let_def)

lemma path_start_bound:
  assumes "config_ok s" and "pages_ok s pages" and "path m q fl"
    and "set fl \<subseteq> set (all_blocks s pages)"
  shows "q < 2 ^ 64"
proof (rule path_head_bound [OF assms(3)])
  fix c assume "c \<in> set fl"
  then have "c \<in> set (all_blocks s pages)" using assms(4) by blast
  from block_bounds(2) [OF assms(1,2) this] assms(1)
  show "c < 2 ^ 64" unfolding config_ok_def sizeof_ptr_def by linarith
qed simp

lemma put_on_freelist_Returns_live:
  assumes "put_on_freelist s p = Some (Returns u s')"
  shows "record_live s p"
proof (rule ccontr)
  assume "\<not> record_live s p"
  then have "faulted (configure_header
                   (s\<lparr>stats := (stats s)\<lparr>Deallocations := Deallocations (stats s) + 1,
                        ObjectsInUse := ObjectsInUse (stats s) - 1,
                        FreeObjects := FreeObjects (stats s) + 1\<rparr>\<rparr>) p False True None no_new)"
    by (simp add: configure_header_free_faulted)
  then obtain t where "configure_header
                   (s\<lparr>stats := (stats s)\<lparr>Deallocations := Deallocations (stats s) + 1,
                        ObjectsInUse := ObjectsInUse (stats s) - 1,
                        FreeObjects := FreeObjects (stats s) + 1\<rparr>\<rparr>) p False True None no_new
                 = Faults t"
    by (cases "configure_header
                   (s\<lparr>stats := (stats s)\<lparr>Deallocations := Deallocations (stats s) + 1,
                        ObjectsInUse := ObjectsInUse (stats s) - 1,
                        FreeObjects := FreeObjects (stats s) + 1\<rparr>\<rparr>) p False True None no_new")
       simp_all
  with assms show False
    by (auto simp: put_on_freelist_def Let_def split: option.splits if_splits)
qed

lemma put_on_freelist_inv:
  assumes inv: "oa_gen w s pages fl" and p: "p \<in> set (all_blocks s pages)" and nf: "p \<notin> set fl"
    and ok: "DebugOn (clientConfig s) \<longrightarrow> PadBytes (clientConfig s) \<noteq> 0 \<longrightarrow> \<not> check_corruption s p"
    and rec: "record_live s p"
  defines "s' \<equiv> state_of (the (put_on_freelist s p))"
  shows "put_on_freelist s p = Some (Returns () s')"
    and "oa_gen w s' pages (p # fl)"
    and "same_geom s s'"
    and "\<And>x. \<not> in_header s p x \<Longrightarrow> \<not> in_object s p x \<Longrightarrow> mem s' x = mem s x"
    and "stats s' = (stats s)\<lparr>Deallocations := Deallocations (stats s) + 1,
                              ObjectsInUse := ObjectsInUse (stats s) - 1,
                              FreeObjects := FreeObjects (stats s) + 1\<rparr>"
    and "\<And>x. in_header s p x \<Longrightarrow>
           mem s' x = mem (state_of (configure_header
                   (s\<lparr>stats := (stats s)\<lparr>Deallocations := Deallocations (stats s) + 1,
                        ObjectsInUse := ObjectsInUse (stats s) - 1,
                        FreeObjects := FreeObjects (stats s) + 1\<rparr>\<rparr>) p False True None no_new)) x"
proof -
  note I = oa_invD [OF inv]
  define s1 where "s1 = s\<lparr>stats := (stats s)\<lparr>Deallocations := Deallocations (stats s) + 1,
                        ObjectsInUse := ObjectsInUse (stats s) - 1,
                        FreeObjects := FreeObjects (stats s) + 1\<rparr>\<rparr>"
  define s2 where "s2 = state_of (configure_header s1 p False True None no_new)"
  define m3 where "m3 = (if DebugOn (clientConfig s)
                  then memset (mem s2) p FREED_PATTERN (ObjectSize (stats s)) else mem s2)"
  define s4 where "s4 = s2\<lparr>mem := write_ptr m3 p (FreeList s), FreeList := p\<rparr>"
  have cfg: "config_ok s" by (rule I)
  have g1: "same_geom s s1" unfolding s1_def by (rule stats_only_geom)
  have ge: "unat (PadBytes (clientConfig s)) + hb_size (HBlockInfo (clientConfig s)) \<le> p"
    by (rule block_geq [OF p])
  have chk: "check_freelist s1 p = Some None" if d: "DebugOn (clientConfig s)"
  proof -
    have S1: "0 < calculate_block_size s1"
      using block_size_pos [OF cfg] same_geom_block_size [OF g1] by simp
    have pf: "path (mem s1) (FreeList s1) fl" and pp: "path (mem s1) (PageList s1) pages"
      using I(3,4) by (simp_all add: s1_def)
    have nc: "PadBytes (clientConfig s1) \<noteq> 0 \<Longrightarrow> \<not> check_corruption s1 p"
      using ok d check_corruption_cong [OF g1, of p] by (simp add: s1_def)
    from p obtain Q i where Q: "Q \<in> set pages"
      and i: "i < unat (ObjectsPerPage (clientConfig s))" and pQ: "p = block_at s Q i"
      by (auto simp: all_blocks_iff)
    have "page_accepts s p Q"
      unfolding pQ using cfg i pages_ok_mem [OF I(2) Q] by (intro block_accepted) simp_all
    then have "page_accepts s1 p Q" using same_geom_page_accepts [OF g1] by simp
    then have "\<not> (pages \<noteq> [] \<and> (\<forall>Q \<in> set pages. \<not> page_accepts s1 p Q))" using Q by blast
    then show ?thesis
      unfolding check_freelist_path [OF S1 pf pp] using nc nf by auto
  qed
  have "put_on_freelist s p = Some (Returns () s4)"
    unfolding s4_def m3_def s2_def s1_def
    using put_on_freelist_eq [of s p] chk rec by (simp add: Let_def s1_def)
  then have e: "put_on_freelist s p = Some (Returns () s4)" .
  then have s': "s' = s4" by (simp add: s'_def)
  show "put_on_freelist s p = Some (Returns () s')" by (simp add: e s')
  have f2: "clientConfig s2 = clientConfig s" "stats s2 = stats s1" "PageList s2 = PageList s"
    by (simp_all add: s2_def configure_header_fields, simp_all add: s1_def)
  have g: "same_geom s s'" by (simp add: s' s4_def same_geom_def f2 s1_def)
  show "same_geom s s'" by (rule g)
  have m2: "mem s2 x = mem s x" if "\<not> in_header s p x" for x
  proof -
    have "mem s2 x = mem s1 x"
      unfolding s2_def using that cfg ge
      by (intro configure_header_frame) (simp_all add: s1_def config_ok_def in_header_def)
    then show ?thesis by (simp add: s1_def)
  qed
  have o8: "sizeof_ptr \<le> ObjectSize (stats s)" using cfg by (simp add: config_ok_def)
  have frame: "mem s' x = mem s x" if "\<not> in_header s p x" and "\<not> in_object s p x" for x
    using that m2 [of x] o8
    by (auto simp: s' s4_def m3_def memset_apply write_ptr_apply in_object_def)
  show "\<And>x. \<not> in_header s p x \<Longrightarrow> \<not> in_object s p x \<Longrightarrow> mem s' x = mem s x"
    by (rule frame)
  show st: "stats s' = (stats s)\<lparr>Deallocations := Deallocations (stats s) + 1,
                              ObjectsInUse := ObjectsInUse (stats s) - 1,
                              FreeObjects := FreeObjects (stats s) + 1\<rparr>"
    by (simp add: s' s4_def f2 s1_def)
  show "mem s' x = mem (state_of (configure_header
                   (s\<lparr>stats := (stats s)\<lparr>Deallocations := Deallocations (stats s) + 1,
                        ObjectsInUse := ObjectsInUse (stats s) - 1,
                        FreeObjects := FreeObjects (stats s) + 1\<rparr>\<rparr>) p False True None no_new)) x"
    if "in_header s p x" for x
  proof -
    have "x < p" using that ge unfolding in_header_def by linarith
    then show ?thesis
      by (simp add: s' s4_def m3_def memset_apply write_ptr_apply s2_def s1_def)
  qed
  \<comment> \<open>the invariant\<close>
  have fl64: "FreeList s < 2 ^ 64" by (rule path_start_bound [OF cfg I(2) I(4) I(6)])
  have link: "read_ptr (mem s') p = FreeList s"
    using read_write_ptr [OF fl64] by (simp add: s' s4_def)
  have "\<forall>x. \<not> in_header s p x \<longrightarrow> \<not> in_object s p x \<longrightarrow> mem s' x = mem s x"
    using frame by blast
  note F = one_block_frame [OF cfg I(2) p g this]
  have ab: "all_blocks s' = all_blocks s" by (rule same_geom_all_blocks [OF g])
  have i1: "config_ok s'" using same_geom_config_ok [OF g] cfg by simp
  have i2: "pages_ok s' pages" using same_geom_pages_ok [OF g] I(2) by simp
  have "PageList s' = PageList s" by (simp add: s' s4_def f2)
  then have i3: "path (mem s') (PageList s') pages" using F(1) [OF I(3)] by simp
  have "path (mem s') (FreeList s) fl" using I(4) nf I(6) by (rule F(2))
  moreover have "0 < p" by (rule block_bounds(1) [OF cfg I(2) p])
  ultimately have i4: "path (mem s') (FreeList s') (p # fl)"
    using link by (simp add: s' s4_def)
  have i5: "distinct (p # fl)" using I(5) nf by simp
  have i6: "set (p # fl) \<subseteq> set (all_blocks s' pages)" using I(6) p by (simp add: ab)
  have i7: "FreeObjects (stats s') = of_nat (length (p # fl))" using I(7) by (simp add: st)
  have i8: "PagesInUse (stats s') = of_nat (length pages)" using I(8) by (simp add: st)
  have "balanced (state_of (Returns () s'))"
    using I(9) \<open>put_on_freelist s p = Some (Returns () s')\<close> by (rule put_on_freelist_balanced)
  then have i9: "balanced s'" by simp
  have i10: "\<not> check_corruption s' c"
    if w: "w" and d: "DebugOn (clientConfig s')" and c: "c \<in> set (all_blocks s' pages)" for c
  proof -
    have cs: "c \<in> set (all_blocks s pages)" using c by (simp add: ab)
    have ds: "DebugOn (clientConfig s)" using d g by (simp add: same_geom_def)
    have "pads_ok s c" using I(10) [OF w ds cs] check_corruption_iff [of s c] block_geq [OF cs] by simp
    then have "pads_ok s' c" using F(3) [OF cs] by simp
    moreover have "unat (PadBytes (clientConfig s')) \<le> c"
      using block_geq [OF c] by simp
    ultimately show ?thesis by (simp add: check_corruption_iff)
  qed
  show "oa_gen w s' pages (p # fl)"
    unfolding oa_gen_def
    using i1 i2 i3 i4 i5 i6 i7 i8 i9 i10 unfolding balanced_def by blast
qed

section \<open>Allocate and Free on a state of the pool\<close>

lemma configure_header_alloc_throws:
  "\<not> header_new_ok s lbl sys \<Longrightarrow> thrown (configure_header s b True False lbl sys) \<noteq> None"
  by (auto simp: configure_header_def Let_def header_new_ok_def
      split: HBLOCK_TYPE.splits option.splits)

lemma take_off_freelist_returns_new_ok:
  assumes "take_off_freelist s lbl sys = Some (Returns p s')"
  shows "header_new_ok s lbl sys"
proof (rule ccontr)
  assume "\<not> header_new_ok s lbl sys"
  then have "\<not> header_new_ok (s\<lparr>stats := (stats s)
                  \<lparr>FreeObjects := FreeObjects (stats s) - 1,
                   ObjectsInUse := ObjectsInUse (stats s) + 1,
                   MostObjects := MostObjects (stats s) + 1,
                   Allocations := Allocations (stats s) + 1\<rparr>\<rparr>) lbl sys"
    by (simp add: header_new_ok_def)
  from configure_header_alloc_throws [OF this, of "FreeList s"] assms show False
    by (auto simp: take_off_freelist_def Let_def split: if_splits outcome.splits)
qed

lemma Allocate_pool:
  assumes "config_ok s"
  shows "FreeList s \<noteq> 0 \<Longrightarrow> Allocate s lbl sys = take_off_freelist s lbl sys"
    and "FreeList s = 0 \<Longrightarrow> PagesInUse (stats s) < MaxPages (clientConfig s) \<Longrightarrow>
         new_page sys = Some P \<Longrightarrow>
         Allocate s lbl sys = take_off_freelist (state_of (allocate_new_page s (Some P))) lbl sys"
    and "FreeList s = 0 \<Longrightarrow> MaxPages (clientConfig s) \<le> PagesInUse (stats s) \<Longrightarrow>
         Allocate s lbl sys = Some (Throws E_NO_PAGES s)"
    and "FreeList s = 0 \<Longrightarrow> PagesInUse (stats s) < MaxPages (clientConfig s) \<Longrightarrow>
         new_page sys = None \<Longrightarrow> Allocate s lbl sys = Some (Throws E_NO_MEMORY s)"
proof -
  have pool: "UseCPPMemManager (clientConfig s) = False" using assms by (simp add: config_ok_def)
  show "Allocate s lbl sys = take_off_freelist s lbl sys" if "FreeList s \<noteq> 0"
    using that pool by (simp add: Allocate_def)
  show "Allocate s lbl sys = take_off_freelist (state_of (allocate_new_page s (Some P))) lbl sys"
    if "FreeList s = 0" and "PagesInUse (stats s) < MaxPages (clientConfig s)"
      and "new_page sys = Some P"
    using that pool
    by (simp add: Allocate_def case_outcome_unit allocate_new_page_no_throw
        allocate_new_page_no_fault)
  show "Allocate s lbl sys = Some (Throws E_NO_PAGES s)"
    if "FreeList s = 0" and "MaxPages (clientConfig s) \<le> PagesInUse (stats s)"
    using that pool
    by (simp add: Allocate_def allocate_new_page_def allocate_empty_page_throws)
  show "Allocate s lbl sys = Some (Throws E_NO_MEMORY s)"
    if "FreeList s = 0" and "PagesInUse (stats s) < MaxPages (clientConfig s)"
      and "new_page sys = None"
    using that pool
    by (simp add: Allocate_def allocate_new_page_def allocate_empty_page_def not_le)
qed

lemma Free_pool: "config_ok s \<Longrightarrow> Free s p = put_on_freelist s p"
  by (simp add: Free_def config_ok_def)

lemma oa_inv_FreeList:
  assumes "oa_gen w s pages fl"
  shows "FreeList s = (case fl of [] \<Rightarrow> 0 | b # _ \<Rightarrow> b)" and "FreeList s = 0 \<longleftrightarrow> fl = []"
  using oa_invD(4) [OF assms] by (cases fl; auto)+

lemma new_blocks_apart:
  assumes cfg: "config_ok s" and fresh: "fresh_page s pages P"
    and b: "b \<in> set (page_blocks s P)" and c: "c \<in> set (all_blocks s pages)"
  shows "b \<noteq> c"
proof
  assume "b = c"
  have b': "b \<in> set (all_blocks s [P])" using b by (simp add: all_blocks_def)
  from block_within_some_page [OF cfg b']
  have 1: "P + sizeof_ptr \<le> b" "b + ObjectSize (stats s) + unat (PadBytes (clientConfig s))
               \<le> P + calculate_page_size s"
    by auto
  from block_within_some_page [OF cfg c] obtain Q where Q: "Q \<in> set pages"
    and 2: "Q + sizeof_ptr \<le> c" "c + ObjectSize (stats s) + unat (PadBytes (clientConfig s))
               \<le> Q + calculate_page_size s"
    by auto
  from fresh Q have "P + calculate_page_size s \<le> Q \<or> Q + calculate_page_size s \<le> P"
    by (auto simp: fresh_page_def)
  then show False using 1 2 \<open>b = c\<close> cfg unfolding config_ok_def sizeof_ptr_def by linarith
qed

section \<open>The invariant holds along every run\<close>

lemma written_inv:
  assumes inv: "oa_gen w s pages fl" and p: "p \<in> set (all_blocks s pages)" and nf: "p \<notin> set fl"
    and k: "k < ObjectSize (stats s)"
  shows "oa_gen w (s\<lparr>mem := (mem s)(p + k := v)\<rparr>) pages fl"
proof -
  note I = oa_invD [OF inv]
  define s' where "s' = s\<lparr>mem := (mem s)(p + k := v)\<rparr>"
  have cfg: "config_ok s" by (rule I)
  have g: "same_geom s s'" by (simp add: same_geom_def s'_def)
  have "\<forall>x. \<not> in_header s p x \<longrightarrow> \<not> in_object s p x \<longrightarrow> mem s' x = mem s x"
    using k by (auto simp: s'_def in_object_def)
  note F = one_block_frame [OF cfg I(2) p g this]
  have ab: "all_blocks s' = all_blocks s" by (rule same_geom_all_blocks [OF g])
  have i1: "config_ok s'" using same_geom_config_ok [OF g] cfg by simp
  have i2: "pages_ok s' pages" using same_geom_pages_ok [OF g] I(2) by simp
  have i3: "path (mem s') (PageList s') pages" using F(1) [OF I(3)] by (simp add: s'_def)
  have i4: "path (mem s') (FreeList s') fl" using F(2) [OF I(4) nf I(6)] by (simp add: s'_def)
  have i7: "FreeObjects (stats s') = of_nat (length fl)" using I(7) by (simp add: s'_def)
  have i8: "PagesInUse (stats s') = of_nat (length pages)" using I(8) by (simp add: s'_def)
  have i9: "balanced s'" using I(9) by (simp add: balanced_def s'_def)
  have i10: "\<not> check_corruption s' c"
    if w: "w" and d: "DebugOn (clientConfig s')" and c: "c \<in> set (all_blocks s' pages)" for c
  proof -
    have cs: "c \<in> set (all_blocks s pages)" using c by (simp add: ab)
    have ds: "DebugOn (clientConfig s)" using d g by (simp add: same_geom_def)
    have "pads_ok s c" using I(10) [OF w ds cs] check_corruption_iff [of s c] block_geq [OF cs] by simp
    then have "pads_ok s' c" using F(3) [OF cs] by simp
    moreover have "unat (PadBytes (clientConfig s')) \<le> c"
      using block_geq [OF c] by simp
    ultimately show ?thesis by (simp add: check_corruption_iff)
  qed
  show ?thesis
    unfolding s'_def [symmetric] oa_gen_def
    using i1 i2 i3 i4 I(5) I(6) i7 i8 i9 i10 unfolding balanced_def ab by blast
qed

lemma trace_inv:
  "trace s pages live \<Longrightarrow> \<exists>fl. oa_inv s pages fl \<and> live = set (all_blocks s pages) - set fl"
proof (induction rule: trace.induct)
  case (created objectSize config P sys m s)
  note C = ctor_inv [OF created(1,2), where m = m]
  have s: "s = state_of (ObjectAllocator_ctor objectSize config m sys)"
    using created(3) by simp
  have "oa_inv s [P] (rev (page_blocks s P))" using C(2) by (simp add: s)
  moreover have "{} = set (all_blocks s [P]) - set (rev (page_blocks s P))"
    by (simp add: all_blocks_def)
  ultimately show ?case by blast
next
  case (allocated s pages live lbl sys p s')
  then obtain fl where inv: "oa_inv s pages fl"
    and live: "live = set (all_blocks s pages) - set fl" by blast
  from allocated(2) oa_inv_FreeList(2) [OF inv] obtain b rest where fl: "fl = b # rest"
    by (cases fl) auto
  have t: "take_off_freelist s lbl sys = Some (Returns p s')"
    using allocated(3) Allocate_pool(1) [OF oa_invD(1) [OF inv] allocated(2)] by simp
  note T = take_off_freelist_inv [OF inv [unfolded fl] take_off_freelist_returns_new_ok [OF t]]
  have pb: "p = b" and s': "s' = state_of (the (take_off_freelist s lbl sys))"
    using T(1) t by simp_all
  have "oa_inv s' pages rest" using T(2) by (simp add: s')
  moreover have "all_blocks s' = all_blocks s"
    using same_geom_all_blocks [OF T(3)] by (simp add: s')
  moreover have "b \<in> set (all_blocks s pages)" "b \<notin> set rest"
    using oa_invD(5,6) [OF inv] by (auto simp: fl)
  ultimately show ?case using live by (auto simp: fl pb)
next
  case (allocated_new_page s pages live sys P lbl p s')
  then obtain fl where inv: "oa_inv s pages fl"
    and live: "live = set (all_blocks s pages) - set fl" by blast
  have fl: "fl = []" using allocated_new_page(2) oa_inv_FreeList(2) [OF inv] by simp
  have cfg: "config_ok s" by (rule oa_invD(1) [OF inv])
  have room: "PagesInUse (stats s) < MaxPages (clientConfig s)"
  proof (rule ccontr)
    assume "\<not> PagesInUse (stats s) < MaxPages (clientConfig s)"
    then have "MaxPages (clientConfig s) \<le> PagesInUse (stats s)" by (simp add: not_less)
    from Allocate_pool(3) [OF cfg allocated_new_page(2) this, of lbl sys]
    show False using allocated_new_page(5) by simp
  qed
  define sn where "sn = state_of (allocate_new_page s (Some P))"
  note N = allocate_new_page_inv [OF inv [unfolded fl] allocated_new_page(4) room, folded sn_def]
  have t: "take_off_freelist sn lbl sys = Some (Returns p s')"
    using Allocate_pool(2) [OF cfg allocated_new_page(2) room allocated_new_page(3), of lbl]
      allocated_new_page(5) by (simp add: sn_def)
  have ne: "page_blocks s P \<noteq> []"
    using cfg by (simp add: page_blocks_def config_ok_def)
  then obtain b rest where r: "rev (page_blocks s P) = b # rest"
    by (cases "rev (page_blocks s P)") auto
  note T = take_off_freelist_inv [OF N(2) [unfolded r] take_off_freelist_returns_new_ok [OF t]]
  have pb: "p = b" and s': "s' = state_of (the (take_off_freelist sn lbl sys))"
    using T(1) t by simp_all
  have inv': "oa_inv s' (P # pages) rest" using T(2) by (simp add: s')
  have ab: "all_blocks s' = all_blocks s"
    using same_geom_all_blocks [OF same_geom_trans [OF N(3) T(3)]] by (simp add: s')
  have pbs: "set (page_blocks s P) = insert b (set rest)"
    using r by (metis list.simps(15) set_rev)
  have "distinct (b # rest)" using distinct_page_blocks [OF cfg, of P] r by (metis distinct_rev)
  then have nb: "b \<notin> set rest" by simp
  have apart: "c \<notin> set (all_blocks s pages)" if "c \<in> set (page_blocks s P)" for c
    using new_blocks_apart [OF cfg allocated_new_page(4) that] by blast
  have "insert p live = set (all_blocks s' (P # pages)) - set rest"
    using live nb apart pbs by (auto simp: fl pb ab all_blocks_def)
  with inv' show ?case by blast
next
  case (freed s pages live p s')
  then obtain fl where inv: "oa_inv s pages fl"
    and live: "live = set (all_blocks s pages) - set fl" by blast
  have p: "p \<in> set (all_blocks s pages)" and nf: "p \<notin> set fl" using freed(2) live by auto
  have "DebugOn (clientConfig s) \<longrightarrow> PadBytes (clientConfig s) \<noteq> 0 \<longrightarrow> \<not> check_corruption s p"
    using oa_invD(10) [OF inv TrueI _ p] by blast
  moreover have "record_live s p"
    using freed(3) Free_pool [OF oa_invD(1) [OF inv]]
    by (intro put_on_freelist_Returns_live [of s p "()" s']) simp
  ultimately have P: "oa_inv (state_of (the (put_on_freelist s p))) pages (p # fl)"
      "same_geom s (state_of (the (put_on_freelist s p)))"
    by (rule put_on_freelist_inv(2) [OF inv p nf], rule put_on_freelist_inv(3) [OF inv p nf])
  have s': "s' = state_of (the (put_on_freelist s p))"
    using freed(3) Free_pool [OF oa_invD(1) [OF inv]] by simp
  have "oa_inv s' pages (p # fl)" using P(1) by (simp add: s')
  moreover have "all_blocks s' = all_blocks s"
    using same_geom_all_blocks [OF P(2)] by (simp add: s')
  ultimately show ?case using live by auto
next
  case (written s pages live p k v)
  then obtain fl where inv: "oa_inv s pages fl"
    and live: "live = set (all_blocks s pages) - set fl" by blast
  have p: "p \<in> set (all_blocks s pages)" and nf: "p \<notin> set fl" using written(2) live by auto
  have "oa_inv (s\<lparr>mem := (mem s)(p + k := v)\<rparr>) pages fl"
    using inv p nf written(3) by (rule written_inv)
  moreover have "all_blocks (s\<lparr>mem := (mem s)(p + k := v)\<rparr>) = all_blocks s"
    by (rule same_geom_all_blocks) (simp add: same_geom_def)
  ultimately show ?case using live by auto
qed

section \<open>Allocate and Free, step by step\<close>

lemma Allocate_pop_inv:
  fixes lbl :: "string option" and sys :: sysnew
  assumes inv: "oa_gen w s pages (b # fl)" and new: "header_new_ok s lbl sys"
  defines "s' \<equiv> state_of (the (Allocate s lbl sys))"
  shows "Allocate s lbl sys = Some (Returns b s')"
    and "oa_gen w s' pages fl"
    and "same_geom s s'"
    and "\<And>x. \<not> in_header s b x \<Longrightarrow> \<not> in_object s b x \<Longrightarrow> mem s' x = mem s x"
    and "stats s' = (stats s)\<lparr>FreeObjects := FreeObjects (stats s) - 1,
                              ObjectsInUse := ObjectsInUse (stats s) + 1,
                              MostObjects := MostObjects (stats s) + 1,
                              Allocations := Allocations (stats s) + 1\<rparr>"
proof -
  have "FreeList s \<noteq> 0" using oa_inv_FreeList(2) [OF inv] by simp
  then have e: "Allocate s lbl sys = take_off_freelist s lbl sys"
    by (rule Allocate_pool(1) [OF oa_invD(1) [OF inv]])
  note T = take_off_freelist_inv [OF inv new, folded e, folded s'_def]
  show "Allocate s lbl sys = Some (Returns b s')" by (rule T(1))
  show "oa_gen w s' pages fl" by (rule T(2))
  show "same_geom s s'" by (rule T(3))
  show "\<And>x. \<not> in_header s b x \<Longrightarrow> \<not> in_object s b x \<Longrightarrow> mem s' x = mem s x" by (rule T(4))
  show "stats s' = (stats s)\<lparr>FreeObjects := FreeObjects (stats s) - 1,
                              ObjectsInUse := ObjectsInUse (stats s) + 1,
                              MostObjects := MostObjects (stats s) + 1,
                              Allocations := Allocations (stats s) + 1\<rparr>" by (rule T(5))
qed

lemma Free_valid_inv:
  assumes inv: "oa_gen w s pages fl" and p: "p \<in> set (all_blocks s pages)" and nf: "p \<notin> set fl"
    and ok: "DebugOn (clientConfig s) \<longrightarrow> PadBytes (clientConfig s) \<noteq> 0 \<longrightarrow> \<not> check_corruption s p"
    and rec: "record_live s p"
  defines "s' \<equiv> state_of (the (Free s p))"
  shows "Free s p = Some (Returns () s')"
    and "oa_gen w s' pages (p # fl)"
    and "same_geom s s'"
    and "\<And>x. \<not> in_header s p x \<Longrightarrow> \<not> in_object s p x \<Longrightarrow> mem s' x = mem s x"
    and "stats s' = (stats s)\<lparr>Deallocations := Deallocations (stats s) + 1,
                              ObjectsInUse := ObjectsInUse (stats s) - 1,
                              FreeObjects := FreeObjects (stats s) + 1\<rparr>"
proof -
  have e: "Free s p = put_on_freelist s p" by (rule Free_pool [OF oa_invD(1) [OF inv]])
  note P = put_on_freelist_inv [OF inv p nf ok rec, folded e, folded s'_def]
  show "Free s p = Some (Returns () s')" by (rule P(1))
  show "oa_gen w s' pages (p # fl)" by (rule P(2))
  show "same_geom s s'" by (rule P(3))
  show "\<And>x. \<not> in_header s p x \<Longrightarrow> \<not> in_object s p x \<Longrightarrow> mem s' x = mem s x" by (rule P(4))
  show "stats s' = (stats s)\<lparr>Deallocations := Deallocations (stats s) + 1,
                              ObjectsInUse := ObjectsInUse (stats s) - 1,
                              FreeObjects := FreeObjects (stats s) + 1\<rparr>" by (rule P(5))
qed

text \<open>
  The outcome of \<open>Free\<close> in debug mode, when the two lists are linked in memory: the
  first failing check decides, and a throwing call leaves the state with the counters
  already changed.
\<close>

lemma Free_debug:
  assumes cfg: "config_ok s" and d: "DebugOn (clientConfig s)"
    and pf: "path (mem s) (FreeList s) fl" and pp: "path (mem s) (PageList s) pages"
  shows "PadBytes (clientConfig s) \<noteq> 0 \<Longrightarrow> check_corruption s p \<Longrightarrow>
         Free s p = Some (Throws E_CORRUPTED_BLOCK
           (s\<lparr>stats := (stats s)\<lparr>Deallocations := Deallocations (stats s) + 1,
                ObjectsInUse := ObjectsInUse (stats s) - 1,
                FreeObjects := FreeObjects (stats s) + 1\<rparr>\<rparr>))"
    and "PadBytes (clientConfig s) = 0 \<or> \<not> check_corruption s p \<Longrightarrow> p \<in> set fl \<Longrightarrow>
         Free s p = Some (Throws E_MULTIPLE_FREE
           (s\<lparr>stats := (stats s)\<lparr>Deallocations := Deallocations (stats s) + 1,
                ObjectsInUse := ObjectsInUse (stats s) - 1,
                FreeObjects := FreeObjects (stats s) + 1\<rparr>\<rparr>))"
    and "PadBytes (clientConfig s) = 0 \<or> \<not> check_corruption s p \<Longrightarrow> p \<notin> set fl \<Longrightarrow>
         pages \<noteq> [] \<Longrightarrow> \<forall>Q \<in> set pages. \<not> page_accepts s p Q \<Longrightarrow>
         Free s p = Some (Throws E_BAD_BOUNDARY
           (s\<lparr>stats := (stats s)\<lparr>Deallocations := Deallocations (stats s) + 1,
                ObjectsInUse := ObjectsInUse (stats s) - 1,
                FreeObjects := FreeObjects (stats s) + 1\<rparr>\<rparr>))"
    and "PadBytes (clientConfig s) = 0 \<or> \<not> check_corruption s p \<Longrightarrow> p \<notin> set fl \<Longrightarrow>
         pages = [] \<or> (\<exists>Q \<in> set pages. page_accepts s p Q) \<Longrightarrow> record_live s p \<Longrightarrow>
         thrown (the (Free s p)) = None \<and> Free s p \<noteq> None"
    and "PadBytes (clientConfig s) = 0 \<or> \<not> check_corruption s p \<Longrightarrow> p \<notin> set fl \<Longrightarrow>
         pages = [] \<or> (\<exists>Q \<in> set pages. page_accepts s p Q) \<Longrightarrow> \<not> record_live s p \<Longrightarrow>
         Free s p = None"
proof -
  define s1 where "s1 = s\<lparr>stats := (stats s)\<lparr>Deallocations := Deallocations (stats s) + 1,
                ObjectsInUse := ObjectsInUse (stats s) - 1,
                FreeObjects := FreeObjects (stats s) + 1\<rparr>\<rparr>"
  have g1: "same_geom s s1" unfolding s1_def by (rule stats_only_geom)
  have S1: "0 < calculate_block_size s1"
    using block_size_pos [OF cfg] same_geom_block_size [OF g1] by simp
  have pf1: "path (mem s1) (FreeList s1) fl" and pp1: "path (mem s1) (PageList s1) pages"
    using pf pp by (simp_all add: s1_def)
  have cc: "check_corruption s1 p = check_corruption s p"
    using check_corruption_cong [OF g1, of p] by (simp add: s1_def)
  have pa: "page_accepts s1 = page_accepts s" by (rule same_geom_page_accepts [OF g1])
  have pad1: "PadBytes (clientConfig s1) = PadBytes (clientConfig s)" by (simp add: s1_def)
  note chk = check_freelist_path [OF S1 pf1 pp1, of p, unfolded cc pa pad1]
  have e: "Free s p = put_on_freelist s p" by (rule Free_pool [OF cfg])
  show "Free s p = Some (Throws E_CORRUPTED_BLOCK s1)"
    if "PadBytes (clientConfig s) \<noteq> 0" and "check_corruption s p"
    unfolding e s1_def using that chk by (intro put_on_freelist_throw [OF d]) (simp add: s1_def)
  show "Free s p = Some (Throws E_MULTIPLE_FREE s1)"
    if "PadBytes (clientConfig s) = 0 \<or> \<not> check_corruption s p" and "p \<in> set fl"
    unfolding e s1_def using that chk by (intro put_on_freelist_throw [OF d]) (auto simp: s1_def)
  show "Free s p = Some (Throws E_BAD_BOUNDARY s1)"
    if "PadBytes (clientConfig s) = 0 \<or> \<not> check_corruption s p" and "p \<notin> set fl"
      and "pages \<noteq> []" and "\<forall>Q \<in> set pages. \<not> page_accepts s p Q"
    unfolding e s1_def using that chk by (intro put_on_freelist_throw [OF d]) (auto simp: s1_def)
  show "Free s p = None"
    if "PadBytes (clientConfig s) = 0 \<or> \<not> check_corruption s p" and "p \<notin> set fl"
      and "pages = [] \<or> (\<exists>Q \<in> set pages. page_accepts s p Q)" and nr: "\<not> record_live s p"
  proof -
    have c: "check_freelist s1 p = Some None" using that(1-3) chk by auto
    have "faulted (configure_header s1 p False True None no_new)"
      using nr by (simp add: configure_header_free_faulted s1_def)
    then obtain t where "configure_header s1 p False True None no_new = Faults t"
      by (cases "configure_header s1 p False True None no_new") simp_all
    then show ?thesis
      unfolding e put_on_freelist_def Let_def s1_def [symmetric] using c d
      by (simp add: s1_def)
  qed
  show "thrown (the (Free s p)) = None \<and> Free s p \<noteq> None"
    if "PadBytes (clientConfig s) = 0 \<or> \<not> check_corruption s p" and "p \<notin> set fl"
      and "pages = [] \<or> (\<exists>Q \<in> set pages. page_accepts s p Q)" and rec: "record_live s p"
  proof -
    have "check_freelist s1 p = Some None" using that(1-3) chk by auto
    then have "(if DebugOn (clientConfig s) then check_freelist s1 p else Some None) = Some None"
      by simp
    from put_on_freelist_eq [OF this [unfolded s1_def] rec] show ?thesis by (simp add: e)
  qed
qed

section \<open>The two traversals\<close>

lemma block_at_Suc: "block_at s P i + calculate_block_size s = block_at s P (Suc i)"
  by (simp add: block_at_def)

lemma validate_blocks_eq:
  "validate_blocks s n (block_at s P i) acc =
     (if hb_size (HBlockInfo (clientConfig s)) = 0 then acc
      else (fst acc @ map (\<lambda>b. (b + hb_size (HBlockInfo (clientConfig s)), ObjectSize (stats s)))
                        (filter (check_corruption s) (map (block_at s P) [i ..< i + n])),
            snd acc + of_nat (length (filter (check_corruption s)
                                        (map (block_at s P) [i ..< i + n])))))"
proof (induction n arbitrary: i acc)
  case 0
  show ?case by simp
next
  case (Suc n)
  have u: "[i ..< i + Suc n] = i # [Suc i ..< Suc i + n]" by (simp add: upt_rec)
  show ?case
    unfolding validate_blocks.simps block_at_Suc Suc.IH u by (simp add: add.assoc)
qed

lemma validate_pages_eq:
  "path (mem s) pl pages \<Longrightarrow>
   validate_pages s pl acc =
     Some (if hb_size (HBlockInfo (clientConfig s)) = 0 then acc
           else (fst acc @ map (\<lambda>b. (b + hb_size (HBlockInfo (clientConfig s)), ObjectSize (stats s)))
                             (filter (check_corruption s) (all_blocks s pages)),
                 snd acc + of_nat (length (filter (check_corruption s) (all_blocks s pages)))))"
proof (induction pages arbitrary: pl acc)
  case Nil
  then show ?case by (subst validate_pages.simps) (simp add: all_blocks_def)
next
  case (Cons Q pages)
  then have pl: "pl = Q" "pl \<noteq> 0" and rest: "path (mem s) (read_ptr (mem s) Q) pages" by auto
  have first: "create_offset Q
                 + (hb_size (HBlockInfo (clientConfig s)) + unat (PadBytes (clientConfig s)))
               = block_at s Q 0"
    by (simp add: block_at_def)
  have pb: "map (block_at s Q) [0 ..< 0 + unat (ObjectsPerPage (clientConfig s))] = page_blocks s Q"
    by (simp add: page_blocks_def)
  show ?case
    using pl
    by (subst validate_pages.simps)
       (simp add: first validate_blocks_eq page_blocks_def Cons.IH [OF rest] all_blocks_def
          add.assoc)
qed

lemma ValidatePages_eq:
  "path (mem s) (PageList s) pages \<Longrightarrow>
   ValidatePages s =
     Some (if hb_size (HBlockInfo (clientConfig s)) = 0 then ([], 0)
           else (map (\<lambda>b. (b + hb_size (HBlockInfo (clientConfig s)), ObjectSize (stats s)))
                   (filter (check_corruption s) (all_blocks s pages)),
                 of_nat (length (filter (check_corruption s) (all_blocks s pages)))))"
  by (simp add: ValidatePages_def validate_pages_eq)

lemma slot_Suc:
  "block_at s P i - (unat (PadBytes (clientConfig s)) + hb_size (HBlockInfo (clientConfig s)))
     + calculate_block_size s
   = block_at s P (Suc i)
       - (unat (PadBytes (clientConfig s)) + hb_size (HBlockInfo (clientConfig s)))"
  by (simp add: block_at_def)

lemma slot_plus_header:
  "block_at s P i - (unat (PadBytes (clientConfig s)) + hb_size (HBlockInfo (clientConfig s)))
     + hb_size (HBlockInfo (clientConfig s))
   = block_at s P i - unat (PadBytes (clientConfig s))"
  by (simp add: block_at_def)

lemma dump_blocks_eq:
  "dump_blocks s n
     (block_at s P i - (unat (PadBytes (clientConfig s)) + hb_size (HBlockInfo (clientConfig s))))
     acc =
     (if hb_size (HBlockInfo (clientConfig s)) = 0 then acc
      else (fst acc @ map (\<lambda>b. (b - unat (PadBytes (clientConfig s)), ObjectSize (stats s)))
                        (filter (marked_in_use s) (map (block_at s P) [i ..< i + n])),
            snd acc + of_nat (length (filter (marked_in_use s)
                                        (map (block_at s P) [i ..< i + n])))))"
proof (induction n arbitrary: i acc)
  case 0
  show ?case by simp
next
  case (Suc n)
  have u: "[i ..< i + Suc n] = i # [Suc i ..< Suc i + n]" by (simp add: upt_rec)
  have m: "check_leak_in_header s
             (block_at s P i
                - (unat (PadBytes (clientConfig s)) + hb_size (HBlockInfo (clientConfig s))))
           = marked_in_use s (block_at s P i)"
    by (simp add: marked_in_use_def)
  show ?case
    unfolding dump_blocks.simps slot_Suc Suc.IH u slot_plus_header m
    by (simp add: add.assoc)
qed

lemma dump_pages_eq:
  "path (mem s) pl pages \<Longrightarrow>
   dump_pages s pl acc =
     Some (if hb_size (HBlockInfo (clientConfig s)) = 0 then acc
           else (fst acc @ map (\<lambda>b. (b - unat (PadBytes (clientConfig s)), ObjectSize (stats s)))
                             (filter (marked_in_use s) (all_blocks s pages)),
                 snd acc + of_nat (length (filter (marked_in_use s) (all_blocks s pages)))))"
proof (induction pages arbitrary: pl acc)
  case Nil
  then show ?case by (subst dump_pages.simps) (simp add: all_blocks_def)
next
  case (Cons Q pages)
  then have pl: "pl = Q" "pl \<noteq> 0" and rest: "path (mem s) (read_ptr (mem s) Q) pages" by auto
  have first: "create_offset Q
     = block_at s Q 0 - (unat (PadBytes (clientConfig s)) + hb_size (HBlockInfo (clientConfig s)))"
    by (simp add: block_at_def)
  have pb: "map (block_at s Q) [0 ..< 0 + unat (ObjectsPerPage (clientConfig s))] = page_blocks s Q"
    by (simp add: page_blocks_def)
  show ?case
    using pl
    by (subst dump_pages.simps)
       (simp add: first dump_blocks_eq page_blocks_def Cons.IH [OF rest] all_blocks_def
          add.assoc)
qed

lemma DumpMemoryInUse_eq:
  "path (mem s) (PageList s) pages \<Longrightarrow>
   DumpMemoryInUse s =
     Some (if hb_size (HBlockInfo (clientConfig s)) = 0 then ([], 0)
           else (map (\<lambda>b. (b - unat (PadBytes (clientConfig s)), ObjectSize (stats s)))
                   (filter (marked_in_use s) (all_blocks s pages)),
                 of_nat (length (filter (marked_in_use s) (all_blocks s pages)))))"
  by (simp add: DumpMemoryInUse_def dump_pages_eq)

section \<open>The sample run on the plain configuration\<close>

lemma upt_two: "[0 ..< 2] = [0, 1]"
  by (simp add: upt_rec)

lemma plain_ctor_ok: "ctor_ok 8 plain_config 4096"
  by (simp add: ctor_ok_def plain_config_def sizeof_ptr_def header_fits_def)

lemma plain_geometry:
  assumes "clientConfig s = plain_config" and "ObjectSize (stats s) = 8"
  shows "page_blocks s P = [P + 8, P + 16]" and "calculate_page_size s = 24"
    and "calculate_block_size s = 8"
    and "in_header s b x = False"
    and "PadBytes (clientConfig s) = 0" and "DebugOn (clientConfig s)"
  using assms
  by (simp_all add: page_blocks_def block_at_def calculate_block_size_def create_offset_def
      calculate_page_size_def sizeof_ptr_def plain_config_def upt_two in_header_def)

lemma plain_created_facts:
  shows "ObjectAllocator_ctor 8 plain_config zero_mem (page_at 4096) = Returns () plain_created"
    and "oa_inv plain_created [4096] [4112, 4104]"
    and "clientConfig plain_created = plain_config"
    and "ObjectSize (stats plain_created) = 8"
    and "trace plain_created [4096] {}"
    and "ObjectsInUse (stats plain_created) = 0" and "MostObjects (stats plain_created) = 0"
    and "Allocations (stats plain_created) = 0" and "Deallocations (stats plain_created) = 0"
    and "FreeObjects (stats plain_created) = 2"
proof -
  have np: "new_page (page_at 4096) = Some 4096" by (simp add: page_at_def)
  note C = ctor_inv [OF plain_ctor_ok np, where m = zero_mem, folded plain_created_def]
  show r: "ObjectAllocator_ctor 8 plain_config zero_mem (page_at 4096) = Returns () plain_created"
    by (rule C(1))
  show c: "clientConfig plain_created = plain_config" by (rule C(3))
  show o: "ObjectSize (stats plain_created) = 8" by (rule C(4))
  show i: "oa_inv plain_created [4096] [4112, 4104]"
    using C(2) by (simp add: plain_geometry(1) [OF c o])
  show "trace plain_created [4096] {}"
    using plain_ctor_ok np r by (rule trace.created)
  show "ObjectsInUse (stats plain_created) = 0" "MostObjects (stats plain_created) = 0"
    "Allocations (stats plain_created) = 0" "Deallocations (stats plain_created) = 0"
    by (rule C)+
  show "FreeObjects (stats plain_created) = 2" using oa_invD(7) [OF i] by simp
qed

lemma plain_new_ok: "clientConfig s = plain_config \<Longrightarrow> header_new_ok s lbl sys"
  by (simp add: header_new_ok_def plain_config_def)

lemma plain_allocated_facts:
  shows "Allocate plain_created None (page_at 4096) = Some (Returns 4112 plain_allocated)"
    and "oa_inv plain_allocated [4096] [4104]"
    and "clientConfig plain_allocated = plain_config"
    and "ObjectSize (stats plain_allocated) = 8"
    and "trace plain_allocated [4096] {4112}"
    and "stats plain_allocated =
           (stats plain_created)\<lparr>FreeObjects := 1, ObjectsInUse := 1, MostObjects := 1,
                                   Allocations := 1\<rparr>"
proof -
  note C = plain_created_facts
  note A = Allocate_pop_inv [OF C(2) plain_new_ok [OF C(3)], where lbl = None
      and sys = "page_at 4096", folded plain_allocated_def]
  show a: "Allocate plain_created None (page_at 4096) = Some (Returns 4112 plain_allocated)"
    by (rule A(1))
  show "oa_inv plain_allocated [4096] [4104]" by (rule A(2))
  show "clientConfig plain_allocated = plain_config" "ObjectSize (stats plain_allocated) = 8"
    using A(3) C(3,4) by (simp_all add: same_geom_def)
  have "FreeList plain_created \<noteq> 0" using oa_inv_FreeList(1) [OF C(2)] by simp
  then have "trace plain_allocated [4096] (insert 4112 {})"
    using C(5) a by (intro trace.allocated)
  then show "trace plain_allocated [4096] {4112}" by simp
  show "stats plain_allocated =
           (stats plain_created)\<lparr>FreeObjects := 1, ObjectsInUse := 1, MostObjects := 1,
                                   Allocations := 1\<rparr>"
    unfolding A(5) by (simp add: C)
qed

lemma plain_freed_facts:
  shows "Free plain_allocated 4112 = Some (Returns () plain_freed)"
    and "oa_inv plain_freed [4096] [4112, 4104]"
    and "clientConfig plain_freed = plain_config"
    and "ObjectSize (stats plain_freed) = 8"
    and "trace plain_freed [4096] {}"
    and "stats plain_freed =
           (stats plain_created)\<lparr>FreeObjects := 2, ObjectsInUse := 0, MostObjects := 1,
                                   Allocations := 1, Deallocations := 1\<rparr>"
proof -
  note A = plain_allocated_facts
  have blocks: "all_blocks plain_allocated [4096] = [4104, 4112]"
    by (simp add: all_blocks_def plain_geometry(1) [OF A(3,4)])
  have p: "4112 \<in> set (all_blocks plain_allocated [4096])" by (simp add: blocks)
  have nf: "(4112 :: nat) \<notin> set [4104]" by simp
  have ok: "DebugOn (clientConfig plain_allocated) \<longrightarrow>
            PadBytes (clientConfig plain_allocated) \<noteq> 0 \<longrightarrow>
            \<not> check_corruption plain_allocated 4112"
    by (simp add: plain_geometry(5) [OF A(3,4)])
  have rec: "record_live plain_allocated 4112"
    by (simp add: record_live_def A(3) plain_config_def)
  note F = Free_valid_inv [OF A(2) p nf ok rec, folded plain_freed_def]
  show f: "Free plain_allocated 4112 = Some (Returns () plain_freed)" by (rule F(1))
  show "oa_inv plain_freed [4096] [4112, 4104]" by (rule F(2))
  show "clientConfig plain_freed = plain_config" "ObjectSize (stats plain_freed) = 8"
    using F(3) A(3,4) by (simp_all add: same_geom_def)
  have "trace plain_freed [4096] ({4112} - {4112})"
    using A(5) _ f by (rule trace.freed) simp
  then show "trace plain_freed [4096] {}" by simp
  show "stats plain_freed =
           (stats plain_created)\<lparr>FreeObjects := 2, ObjectsInUse := 0, MostObjects := 1,
                                   Allocations := 1, Deallocations := 1\<rparr>"
    unfolding F(5) A(6) by (simp add: plain_created_facts)
qed

lemma plain_freed_twice_facts:
  shows "Free plain_freed 4112 = Some (Throws E_MULTIPLE_FREE plain_freed_twice)"
    and "stats plain_freed_twice =
           (stats plain_created)\<lparr>FreeObjects := 3, ObjectsInUse := - 1, MostObjects := 1,
                                   Allocations := 1, Deallocations := 2\<rparr>"
proof -
  note F = plain_freed_facts
  note I = oa_invD [OF F(2)]
  have "PadBytes (clientConfig plain_freed) = 0 \<or> \<not> check_corruption plain_freed 4112"
    by (simp add: plain_geometry(5) [OF F(3,4)])
  from Free_debug(2) [OF I(1) plain_geometry(6) [OF F(3,4)] I(4) I(3) this]
  have e: "Free plain_freed 4112 = Some (Throws E_MULTIPLE_FREE
           (plain_freed\<lparr>stats := (stats plain_freed)
              \<lparr>Deallocations := Deallocations (stats plain_freed) + 1,
                ObjectsInUse := ObjectsInUse (stats plain_freed) - 1,
                FreeObjects := FreeObjects (stats plain_freed) + 1\<rparr>\<rparr>))"
    by simp
  then have s: "plain_freed_twice = plain_freed\<lparr>stats := (stats plain_freed)
              \<lparr>Deallocations := Deallocations (stats plain_freed) + 1,
                ObjectsInUse := ObjectsInUse (stats plain_freed) - 1,
                FreeObjects := FreeObjects (stats plain_freed) + 1\<rparr>\<rparr>"
    by (simp add: plain_freed_twice_def)
  show "Free plain_freed 4112 = Some (Throws E_MULTIPLE_FREE plain_freed_twice)"
    using e by (simp only: s)
  show "stats plain_freed_twice =
           (stats plain_created)\<lparr>FreeObjects := 3, ObjectsInUse := - 1, MostObjects := 1,
                                   Allocations := 1, Deallocations := 2\<rparr>"
    by (simp add: s F(6))
qed

lemma plain_reallocated_facts:
  shows "Allocate plain_freed None (page_at 4096) = Some (Returns 4112 plain_reallocated)"
    and "stats plain_reallocated =
           (stats plain_created)\<lparr>FreeObjects := 1, ObjectsInUse := 1, MostObjects := 2,
                                   Allocations := 2, Deallocations := 1\<rparr>"
proof -
  note F = plain_freed_facts
  note A = Allocate_pop_inv [OF F(2) plain_new_ok [OF F(3)], where lbl = None
      and sys = "page_at 4096", folded plain_reallocated_def]
  show "Allocate plain_freed None (page_at 4096) = Some (Returns 4112 plain_reallocated)"
    by (rule A(1))
  show "stats plain_reallocated =
           (stats plain_created)\<lparr>FreeObjects := 1, ObjectsInUse := 1, MostObjects := 2,
                                   Allocations := 2, Deallocations := 1\<rparr>"
    unfolding A(5) F(6) by simp
qed

lemma put_on_freelist_Throws:
  assumes "put_on_freelist s p = Some (Throws e s')"
  shows "s' = s\<lparr>stats := (stats s)\<lparr>Deallocations := Deallocations (stats s) + 1,
                      ObjectsInUse := ObjectsInUse (stats s) - 1,
                      FreeObjects := FreeObjects (stats s) + 1\<rparr>\<rparr>"
proof -
  define s1 where "s1 = s\<lparr>stats := (stats s)\<lparr>Deallocations := Deallocations (stats s) + 1,
                      ObjectsInUse := ObjectsInUse (stats s) - 1,
                      FreeObjects := FreeObjects (stats s) + 1\<rparr>\<rparr>"
  have nt: "thrown (configure_header s1 p False True None no_new) = None"
    by (rule configure_header_no_throw)
  from assms have "s' = s1"
    unfolding put_on_freelist_def s1_def [symmetric] Let_def using nt
    by (cases "configure_header s1 p False True None no_new")
       (auto split: option.splits if_splits)
  then show ?thesis by (simp add: s1_def)
qed

lemma take_off_freelist_stats:
  assumes "take_off_freelist s lbl sys = Some (Returns p s')"
  shows "stats s' = (stats s)\<lparr>FreeObjects := FreeObjects (stats s) - 1,
                              ObjectsInUse := ObjectsInUse (stats s) + 1,
                              MostObjects := MostObjects (stats s) + 1,
                              Allocations := Allocations (stats s) + 1\<rparr>"
proof -
  define s1 where "s1 = s\<lparr>stats := (stats s)\<lparr>FreeObjects := FreeObjects (stats s) - 1,
                              ObjectsInUse := ObjectsInUse (stats s) + 1,
                              MostObjects := MostObjects (stats s) + 1,
                              Allocations := Allocations (stats s) + 1\<rparr>\<rparr>"
  have "stats (state_of (configure_header s1 (FreeList s1) True False lbl sys)) = stats s1"
    by (rule configure_header_fields)
  then have "stats s' = stats s1"
    using assms unfolding take_off_freelist_def s1_def [symmetric] Let_def
    by (auto split: if_splits outcome.splits)
  then show ?thesis by (simp add: s1_def)
qed


section \<open>Runs in general\<close>

lemma trace_pages_not_empty: "trace s pages live \<Longrightarrow> pages \<noteq> []"
  by (induction rule: trace.induct) simp_all

lemma trace_geom:
  "trace s pages live \<Longrightarrow> config_ok s"
  using trace_inv oa_invD(1) by blast

lemma distinct_all_blocks:
  "config_ok s \<Longrightarrow> pages_ok s pages \<Longrightarrow> distinct (all_blocks s pages)"
proof (induction pages)
  case Nil
  show ?case by (simp add: all_blocks_def)
next
  case (Cons P pages)
  have "distinct (page_blocks s P)" by (rule distinct_page_blocks [OF Cons.prems(1)])
  moreover have "distinct (all_blocks s pages)" using Cons by simp
  moreover have "set (page_blocks s P) \<inter> set (all_blocks s pages) = {}"
    using new_blocks_apart [OF Cons.prems(1), of pages P] Cons.prems(2) by auto
  ultimately show ?case by (simp add: all_blocks_def)
qed

lemma filter_single:
  "distinct xs \<Longrightarrow> p \<in> set xs \<Longrightarrow> (\<And>c. c \<in> set xs \<Longrightarrow> Q c \<longleftrightarrow> c = p) \<Longrightarrow> filter Q xs = [p]"
proof (induction xs)
  case Nil
  then show ?case by simp
next
  case (Cons a xs)
  show ?case
  proof (cases "a = p")
    case True
    then have "\<And>c. c \<in> set xs \<Longrightarrow> \<not> Q c" using Cons.prems by auto
    then have "filter Q xs = []" by (simp add: filter_empty_conv)
    moreover have "Q a" using True Cons.prems(3) by simp
    ultimately show ?thesis using True by simp
  next
    case False
    then have "\<not> Q a" using Cons.prems(3) by simp
    moreover have "filter Q xs = [p]"
      using Cons.prems False by (intro Cons.IH) auto
    ultimately show ?thesis by simp
  qed
qed








section \<open>The sample run with debug mode off\<close>

lemma quiet_ctor_ok: "ctor_ok 8 quiet_config 4096"
  by (simp add: ctor_ok_def quiet_config_def plain_config_def sizeof_ptr_def header_fits_def)

lemma quiet_geometry:
  assumes "clientConfig s = quiet_config" and "ObjectSize (stats s) = 8"
  shows "page_blocks s P = [P + 8, P + 16]"
    and "PadBytes (clientConfig s) = 0" and "\<not> DebugOn (clientConfig s)"
    and "header_new_ok s lbl sys"
  using assms
  by (simp_all add: page_blocks_def block_at_def calculate_block_size_def create_offset_def
      sizeof_ptr_def quiet_config_def plain_config_def upt_two header_new_ok_def)

lemma quiet_created_facts:
  shows "oa_inv quiet_created [4096] [4112, 4104]"
    and "clientConfig quiet_created = quiet_config"
    and "ObjectSize (stats quiet_created) = 8"
proof -
  have np: "new_page (page_at 4096) = Some 4096" by (simp add: page_at_def)
  note C = ctor_inv [OF quiet_ctor_ok np, where m = zero_mem, folded quiet_created_def]
  show c: "clientConfig quiet_created = quiet_config" by (rule C(3))
  show o: "ObjectSize (stats quiet_created) = 8" by (rule C(4))
  show "oa_inv quiet_created [4096] [4112, 4104]"
    using C(2) by (simp add: quiet_geometry(1) [OF c o])
qed

lemma quiet_allocated_facts:
  shows "Allocate quiet_created None (page_at 4096) = Some (Returns 4112 quiet_allocated)"
    and "oa_inv quiet_allocated [4096] [4104]"
    and "clientConfig quiet_allocated = quiet_config"
    and "ObjectSize (stats quiet_allocated) = 8"
proof -
  note C = quiet_created_facts
  note A = Allocate_pop_inv [OF C(1) quiet_geometry(4) [OF C(2,3)], where lbl = None
      and sys = "page_at 4096", folded quiet_allocated_def]
  show "Allocate quiet_created None (page_at 4096) = Some (Returns 4112 quiet_allocated)"
    by (rule A(1))
  show "oa_inv quiet_allocated [4096] [4104]" by (rule A(2))
  show "clientConfig quiet_allocated = quiet_config" "ObjectSize (stats quiet_allocated) = 8"
    using A(3) C(2,3) by (simp_all add: same_geom_def)
qed

lemma quiet_freed_facts:
  shows "Free quiet_allocated 4112 = Some (Returns () quiet_freed)"
    and "oa_inv quiet_freed [4096] [4112, 4104]"
    and "clientConfig quiet_freed = quiet_config"
    and "ObjectSize (stats quiet_freed) = 8"
proof -
  note A = quiet_allocated_facts
  have p: "4112 \<in> set (all_blocks quiet_allocated [4096])"
    by (simp add: all_blocks_def quiet_geometry(1) [OF A(3,4)])
  have nf: "(4112 :: nat) \<notin> set [4104]" by simp
  have ok: "DebugOn (clientConfig quiet_allocated) \<longrightarrow>
            PadBytes (clientConfig quiet_allocated) \<noteq> 0 \<longrightarrow>
            \<not> check_corruption quiet_allocated 4112"
    by (simp add: quiet_geometry(2) [OF A(3,4)])
  have rec: "record_live quiet_allocated 4112"
    by (simp add: record_live_def A(3) quiet_config_def plain_config_def)
  note F = Free_valid_inv [OF A(2) p nf ok rec, folded quiet_freed_def]
  show "Free quiet_allocated 4112 = Some (Returns () quiet_freed)" by (rule F(1))
  show "oa_inv quiet_freed [4096] [4112, 4104]" by (rule F(2))
  show "clientConfig quiet_freed = quiet_config" "ObjectSize (stats quiet_freed) = 8"
    using F(3) A(3,4) by (simp_all add: same_geom_def)
qed

lemma quiet_freed_twice_facts:
  shows "Free quiet_freed 4112 = Some (Returns () quiet_freed_twice)"
    and "FreeList quiet_freed_twice = 4112"
    and "read_ptr (mem quiet_freed_twice) 4112 = 4112"
    and "FreeObjects (stats quiet_freed_twice) = 3"
proof -
  note F = quiet_freed_facts
  note I = oa_invD [OF F(2)]
  have fl: "FreeList quiet_freed = 4112" using oa_inv_FreeList(1) [OF F(2)] by simp
  have nd: "\<not> DebugOn (clientConfig quiet_freed)" by (rule quiet_geometry(3) [OF F(3,4)])
  then have "(if DebugOn (clientConfig quiet_freed)
            then check_freelist
                   (quiet_freed\<lparr>stats := (stats quiet_freed)
                      \<lparr>Deallocations := Deallocations (stats quiet_freed) + 1,
                        ObjectsInUse := ObjectsInUse (stats quiet_freed) - 1,
                        FreeObjects := FreeObjects (stats quiet_freed) + 1\<rparr>\<rparr>) 4112
            else Some None) = Some None"
    by simp
  moreover have "record_live quiet_freed 4112"
    by (simp add: record_live_def F(3) quiet_config_def plain_config_def)
  ultimately have E: "put_on_freelist quiet_freed 4112 =
     Some (Returns ()
       (let s2 = state_of (configure_header
                   (quiet_freed\<lparr>stats := (stats quiet_freed)
                      \<lparr>Deallocations := Deallocations (stats quiet_freed) + 1,
                        ObjectsInUse := ObjectsInUse (stats quiet_freed) - 1,
                        FreeObjects := FreeObjects (stats quiet_freed) + 1\<rparr>\<rparr>)
                   4112 False True None no_new);
            m3 = (if DebugOn (clientConfig quiet_freed)
                  then memset (mem s2) 4112 FREED_PATTERN (ObjectSize (stats quiet_freed))
                  else mem s2)
        in s2\<lparr>mem := write_ptr m3 4112 4112, FreeList := 4112\<rparr>))"
    unfolding fl [symmetric] by (rule put_on_freelist_eq)
  note E = E [unfolded Let_def]
  have e: "Free quiet_freed 4112 = put_on_freelist quiet_freed 4112"
    by (rule Free_pool [OF I(1)])
  have s: "quiet_freed_twice = state_of (the (put_on_freelist quiet_freed 4112))"
    by (simp add: quiet_freed_twice_def e)
  show "Free quiet_freed 4112 = Some (Returns () quiet_freed_twice)"
    unfolding s e by (simp add: E)
  show "FreeList quiet_freed_twice = 4112" unfolding s by (simp add: E)
  have "(4112 :: nat) < 2 ^ 64" by simp
  from read_write_ptr [OF this]
  show "read_ptr (mem quiet_freed_twice) 4112 = 4112" unfolding s by (simp add: E)
  show "FreeObjects (stats quiet_freed_twice) = 3"
    unfolding s using I(7) by (simp add: E configure_header_fields)
qed


section \<open>The sample runs with two padding bytes\<close>

lemma padded_ctor_ok: "ctor_ok 8 (padded_config\<lparr>DebugOn := d\<rparr>) 4096"
  by (simp add: ctor_ok_def padded_config_def plain_config_def sizeof_ptr_def header_fits_def)

lemma padded_geometry:
  assumes "clientConfig s = padded_config\<lparr>DebugOn := d\<rparr>" and "ObjectSize (stats s) = 8"
  shows "page_blocks s P = [P + 10, P + 22]" and "calculate_page_size s = 32"
    and "calculate_block_size s = 12"
    and "in_header s b x = False"
    and "PadBytes (clientConfig s) = 2" and "DebugOn (clientConfig s) = d"
    and "header_new_ok s lbl sys"
    and "hb_size (HBlockInfo (clientConfig s)) = 0"
  using assms
  by (simp_all add: page_blocks_def block_at_def calculate_block_size_def create_offset_def
      calculate_page_size_def sizeof_ptr_def padded_config_def plain_config_def upt_two
      in_header_def header_new_ok_def)



lemma padded_config_debug: "padded_config = padded_config\<lparr>DebugOn := True\<rparr>"
  by (simp add: padded_config_def plain_config_def)



section \<open>The boundary check along a run\<close>

lemma block_accepted_by_page:
  assumes "config_ok s" and "pages_ok s pages" and "b \<in> set (all_blocks s pages)"
  shows "\<exists>Q \<in> set pages. page_accepts s b Q"
proof -
  from assms(3) obtain Q i where Q: "Q \<in> set pages"
    and i: "i < unat (ObjectsPerPage (clientConfig s))" and b: "b = block_at s Q i"
    by (auto simp: all_blocks_iff)
  have "Q + calculate_page_size s \<le> 2 ^ 64" using pages_ok_mem [OF assms(2) Q] by simp
  from block_accepted [OF assms(1) i this] Q b show ?thesis by blast
qed

lemma padded_created_facts:
  shows "oa_inv padded_created [4096] [4118, 4106]"
    and "clientConfig padded_created = padded_config\<lparr>DebugOn := True\<rparr>"
    and "ObjectSize (stats padded_created) = 8"
    and "trace padded_created [4096] {}"
    and "\<And>x. 4128 \<le> x \<Longrightarrow> mem padded_created x = 0"
proof -
  have np: "new_page (page_at 4096) = Some 4096" by (simp add: page_at_def)
  have ok: "ctor_ok 8 padded_config 4096"
    using padded_ctor_ok [of True] padded_config_debug by simp
  note C = ctor_inv [OF ok np, where m = zero_mem, folded padded_created_def]
  show c: "clientConfig padded_created = padded_config\<lparr>DebugOn := True\<rparr>"
    using C(3) padded_config_debug by simp
  show o: "ObjectSize (stats padded_created) = 8" by (rule C(4))
  note G = padded_geometry [OF c o]
  show "oa_inv padded_created [4096] [4118, 4106]"
    using C(2) by (simp add: G(1))
  show "trace padded_created [4096] {}"
    using trace.created [OF ok np C(1)] .
  show "mem padded_created x = 0" if "4128 \<le> x" for x
  proof -
    have "mem padded_created x = zero_mem x" by (rule C(5)) (use that in \<open>simp add: G(2)\<close>)
    then show ?thesis by (simp add: zero_mem_def)
  qed
qed

lemma padded_outside_pointer:
  "(\<forall>x. in_object padded_created 100000 x \<longrightarrow> 4096 + calculate_page_size padded_created \<le> x)
   \<and> (\<exists>t. Free padded_created 100000 = Some (Throws E_CORRUPTED_BLOCK t))"
proof -
  note C = padded_created_facts
  note G = padded_geometry [OF C(2,3)]
  note I = oa_invD [OF C(1)]
  have z: "mem padded_created 99998 = 0" by (rule C(5)) simp
  have "in_pads padded_created 100000 99998" by (simp add: in_pads_def G(5))
  with z have "\<not> pads_ok padded_created 100000" by (auto simp: pads_ok_def PAD_PATTERN_def)
  moreover have "unat (PadBytes (clientConfig padded_created)) \<le> 100000" by (simp add: G(5))
  ultimately have cc: "check_corruption padded_created 100000"
    by (simp add: check_corruption_iff)
  have d: "DebugOn (clientConfig padded_created)" by (simp add: G(6))
  have pad: "PadBytes (clientConfig padded_created) \<noteq> 0" by (simp add: G(5))
  from Free_debug(1) [OF I(1) d I(4) I(3) pad cc]
  have "\<exists>t. Free padded_created 100000 = Some (Throws E_CORRUPTED_BLOCK t)" by blast
  then show ?thesis by (simp add: in_object_def G(2))
qed

section \<open>The sample allocator for objects of 12 bytes\<close>

lemma wide_ctor_ok: "ctor_ok 12 plain_config 4096"
  by (simp add: ctor_ok_def plain_config_def sizeof_ptr_def header_fits_def)

lemma wide_geometry:
  assumes "clientConfig s = plain_config" and "ObjectSize (stats s) = 12"
  shows "page_blocks s P = [P + 8, P + 20]" and "calculate_page_size s = 32"
    and "calculate_block_size s = 12"
    and "PadBytes (clientConfig s) = 0" and "DebugOn (clientConfig s)"
    and "hb_size (HBlockInfo (clientConfig s)) = 0"
    and "unat (ObjectsPerPage (clientConfig s)) = 2"
  using assms
  by (simp_all add: page_blocks_def block_at_def calculate_block_size_def create_offset_def
      calculate_page_size_def sizeof_ptr_def plain_config_def upt_two)

lemma wide_created_facts:
  shows "oa_inv wide_created [4096] [4116, 4104]"
    and "clientConfig wide_created = plain_config"
    and "ObjectSize (stats wide_created) = 12"
    and "trace wide_created [4096] {}"
proof -
  have np: "new_page (page_at 4096) = Some 4096" by (simp add: page_at_def)
  note C = ctor_inv [OF wide_ctor_ok np, where m = zero_mem, folded wide_created_def]
  show c: "clientConfig wide_created = plain_config" by (rule C(3))
  show o: "ObjectSize (stats wide_created) = 12" by (rule C(4))
  show "oa_inv wide_created [4096] [4116, 4104]"
    using C(2) by (simp add: wide_geometry(1) [OF c o])
  show "trace wide_created [4096] {}"
    using trace.created [OF wide_ctor_ok np C(1)] .
qed

lemma wide_accepts: "page_accepts wide_created 4100 4096"
proof -
  note C = wide_created_facts
  note G = wide_geometry [OF C(2,3)]
  have "((int 4100 - int (4096 + 8 + 0 + 0)) mod 2 ^ 64) mod 12 = (0 :: int)" by simp
  then show ?thesis
    by (simp add: page_accepts_def G(3,4,6,7) sizeof_ptr_def)
qed


section \<open>Overwriting a byte of the padding\<close>

lemma in_pads_pad_pos: "in_pads s p x \<Longrightarrow> PadBytes (clientConfig s) \<noteq> 0"
  by (auto simp: in_pads_def)

lemma pad_overrun:
  assumes inv: "oa_inv s pages fl" and d: "DebugOn (clientConfig s)"
    and p: "p \<in> set (all_blocks s pages)"
    and x: "in_pads s p x" and v: "v \<noteq> PAD_PATTERN"
  defines "s' \<equiv> s\<lparr>mem := (mem s)(x := v)\<rparr>"
  shows "config_ok s'" and "DebugOn (clientConfig s')"
    and "path (mem s') (PageList s') pages" and "path (mem s') (FreeList s') fl"
    and "PadBytes (clientConfig s') \<noteq> 0"
    and "c \<in> set (all_blocks s' pages) \<Longrightarrow> check_corruption s' c \<longleftrightarrow> c = p"
    and "all_blocks s' pages = all_blocks s pages"
proof -
  note I = oa_invD [OF inv]
  have g: "same_geom s s'" by (simp add: same_geom_def s'_def)
  have xb: "in_block s p x" using x by (rule pads_in_block [OF block_geq [OF p]])
  show "config_ok s'" using I(1) same_geom_config_ok [OF g] by simp
  show "DebugOn (clientConfig s')" using d by (simp add: s'_def)
  show "PadBytes (clientConfig s') \<noteq> 0" using in_pads_pad_pos [OF x] by (simp add: s'_def)
  show ab: "all_blocks s' pages = all_blocks s pages" using same_geom_all_blocks [OF g] by simp
  have "path (mem s') (PageList s) pages"
    using I(3)
  proof (rule path_cong)
    fix Q k assume Q: "Q \<in> set pages" and k: "k < sizeof_ptr"
    from page_link_apart [OF I(1) I(2) Q p] k
    have "\<not> in_block s p (Q + k)" unfolding in_block_def by linarith
    with xb have "Q + k \<noteq> x" by blast
    then show "mem s' (Q + k) = mem s (Q + k)" by (simp add: s'_def)
  qed
  then show "path (mem s') (PageList s') pages" by (simp add: s'_def)
  have "path (mem s') (FreeList s) fl"
    using I(4)
  proof (rule path_cong)
    fix c k assume c: "c \<in> set fl" and k: "k < sizeof_ptr"
    then have cb: "c \<in> set (all_blocks s pages)" using I(6) by blast
    have o: "in_object s c (c + k)" using k by (intro link_in_object [OF I(1)]) simp_all
    have "c + k \<noteq> x"
    proof (cases "c = p")
      case True
      then show ?thesis using o pads_not_object [OF x] by blast
    next
      case False
      have "in_block s c (c + k)" using o by (rule object_in_block)
      then have "\<not> in_block s p (c + k)" using in_block_apart [OF I(1) I(2) p cb] False by blast
      with xb show ?thesis by blast
    qed
    then show "mem s' (c + k) = mem s (c + k)" by (simp add: s'_def)
  qed
  then show "path (mem s') (FreeList s') fl" by (simp add: s'_def)
  show "check_corruption s' c \<longleftrightarrow> c = p" if "c \<in> set (all_blocks s' pages)"
  proof -
    have cb: "c \<in> set (all_blocks s pages)" using that ab by simp
    have ge: "unat (PadBytes (clientConfig s')) \<le> c"
      using block_geq [OF cb] by (simp add: s'_def)
    have iff: "check_corruption s' c \<longleftrightarrow> \<not> pads_ok s' c" by (rule check_corruption_iff [OF ge])
    show ?thesis
    proof (cases "c = p")
      case True
      have "in_pads s' p x" using x same_geom_parts(1) [OF g] by simp
      moreover have "mem s' x \<noteq> PAD_PATTERN" using v by (simp add: s'_def)
      ultimately have "\<not> pads_ok s' p" unfolding pads_ok_def by blast
      then show ?thesis using iff True by simp
    next
      case False
      have "pads_ok s' c = pads_ok s c"
      proof (rule pads_ok_cong [OF g])
        fix y assume "in_pads s c y"
        then have "in_block s c y" by (rule pads_in_block [OF block_geq [OF cb]])
        then have "\<not> in_block s p y" using in_block_apart [OF I(1) I(2) p cb] False by blast
        with xb have "y \<noteq> x" by blast
        then show "mem s' y = mem s y" by (simp add: s'_def)
      qed
      moreover have "pads_ok s c"
        using I(10) [OF _ d cb] check_corruption_iff [of s c] block_geq [OF cb] by simp
      ultimately show ?thesis using iff False by simp
    qed
  qed
qed

lemma padded_allocated_facts:
  shows "Allocate padded_created None (page_at 4096) = Some (Returns 4118 padded_allocated)"
    and "clientConfig padded_allocated = padded_config\<lparr>DebugOn := True\<rparr>"
    and "ObjectSize (stats padded_allocated) = 8"
    and "trace padded_allocated [4096] {4118}"
proof -
  note C = padded_created_facts
  note G = padded_geometry [OF C(2,3)]
  have new: "header_new_ok padded_created None (page_at 4096)" by (rule G(7))
  note A = Allocate_pop_inv [OF C(1) new, folded padded_allocated_def]
  show a: "Allocate padded_created None (page_at 4096) = Some (Returns 4118 padded_allocated)"
    by (rule A(1))
  show "clientConfig padded_allocated = padded_config\<lparr>DebugOn := True\<rparr>"
    "ObjectSize (stats padded_allocated) = 8"
    using A(3) C(2,3) by (simp_all add: same_geom_def)
  have "FreeList padded_created \<noteq> 0" using oa_inv_FreeList(1) [OF C(1)] by simp
  from trace.allocated [OF C(4) this a]
  show "trace padded_allocated [4096] {4118}" by simp
qed


section \<open>The sample run with the basic header\<close>

lemma Allocate_pop_mem:
  fixes lbl :: "string option" and sys :: sysnew
  assumes inv: "oa_gen w s pages (b # fl)" and new: "header_new_ok s lbl sys"
    and d: "DebugOn (clientConfig s)"
  shows "mem (state_of (the (Allocate s lbl sys))) =
           memset (mem (state_of (configure_header
                          (s\<lparr>stats := (stats s)\<lparr>FreeObjects := FreeObjects (stats s) - 1,
                              ObjectsInUse := ObjectsInUse (stats s) + 1,
                              MostObjects := MostObjects (stats s) + 1,
                              Allocations := Allocations (stats s) + 1\<rparr>\<rparr>) b True False lbl sys)))
                  b ALLOCATED_PATTERN (ObjectSize (stats s))"
    and "infos (state_of (the (Allocate s lbl sys))) =
           infos (state_of (configure_header
                          (s\<lparr>stats := (stats s)\<lparr>FreeObjects := FreeObjects (stats s) - 1,
                              ObjectsInUse := ObjectsInUse (stats s) + 1,
                              MostObjects := MostObjects (stats s) + 1,
                              Allocations := Allocations (stats s) + 1\<rparr>\<rparr>) b True False lbl sys))"
proof -
  have "FreeList s \<noteq> 0" using oa_inv_FreeList(2) [OF inv] by simp
  then have e: "Allocate s lbl sys = take_off_freelist s lbl sys"
    by (rule Allocate_pool(1) [OF oa_invD(1) [OF inv]])
  show "mem (state_of (the (Allocate s lbl sys))) =
           memset (mem (state_of (configure_header
                          (s\<lparr>stats := (stats s)\<lparr>FreeObjects := FreeObjects (stats s) - 1,
                              ObjectsInUse := ObjectsInUse (stats s) + 1,
                              MostObjects := MostObjects (stats s) + 1,
                              Allocations := Allocations (stats s) + 1\<rparr>\<rparr>) b True False lbl sys)))
                  b ALLOCATED_PATTERN (ObjectSize (stats s))"
    unfolding e using take_off_freelist_inv(6) [OF inv new] d by simp
  show "infos (state_of (the (Allocate s lbl sys))) =
           infos (state_of (configure_header
                          (s\<lparr>stats := (stats s)\<lparr>FreeObjects := FreeObjects (stats s) - 1,
                              ObjectsInUse := ObjectsInUse (stats s) + 1,
                              MostObjects := MostObjects (stats s) + 1,
                              Allocations := Allocations (stats s) + 1\<rparr>\<rparr>) b True False lbl sys))"
  proof -
    define s1 where "s1 = s\<lparr>stats := (stats s)\<lparr>FreeObjects := FreeObjects (stats s) - 1,
                              ObjectsInUse := ObjectsInUse (stats s) + 1,
                              MostObjects := MostObjects (stats s) + 1,
                              Allocations := Allocations (stats s) + 1\<rparr>\<rparr>"
    have fl: "FreeList s1 = b" and nz: "FreeList s1 \<noteq> 0"
      using oa_inv_FreeList [OF inv] by (simp_all add: s1_def)
    have "header_new_ok s1 lbl sys" using new by (simp add: header_new_ok_def s1_def)
    from configure_header_alloc_no_throw [OF this, of b]
      configure_header_no_fault [of True False s1 b lbl sys]
    obtain s2 where c: "configure_header s1 b True False lbl sys = Returns () s2"
      by (cases "configure_header s1 b True False lbl sys") simp_all
    have "infos (state_of (the (take_off_freelist s lbl sys))) = infos s2"
      unfolding take_off_freelist_def Let_def s1_def [symmetric] using nz
      by (simp add: fl c)
    then show ?thesis unfolding e s1_def [symmetric] c by simp
  qed
qed


lemma basic_ctor_ok: "ctor_ok 8 basic_config 4096"
  by (simp add: ctor_ok_def basic_config_def sizeof_ptr_def header_fits_def sizeof_int_def
      sizeof_char_def)

lemma basic_geometry:
  assumes "clientConfig s = basic_config" and "ObjectSize (stats s) = 8"
  shows "page_blocks s P = [P + 15, P + 32]" and "calculate_page_size s = 42"
    and "calculate_block_size s = 17"
    and "in_header s b x \<longleftrightarrow> b - 7 \<le> x \<and> x < b - 2"
    and "PadBytes (clientConfig s) = 2" and "DebugOn (clientConfig s)"
    and "header_new_ok s lbl sys"
    and "HBlockInfo (clientConfig s) = \<lparr>hb_type = hbBasic, hb_size = 5, hb_additional = 0\<rparr>"
  using assms
  by (simp_all add: page_blocks_def block_at_def calculate_block_size_def create_offset_def
      calculate_page_size_def sizeof_ptr_def basic_config_def upt_two
      in_header_def header_new_ok_def)

lemma basic_created_facts:
  shows "oa_inv basic_created [4096] [4128, 4111]"
    and "clientConfig basic_created = basic_config"
    and "ObjectSize (stats basic_created) = 8"
    and "trace basic_created [4096] {}"
    and "mem basic_created 4108 = 0"
proof -
  have np: "new_page (page_at 4096) = Some 4096" by (simp add: page_at_def)
  note C = ctor_inv [OF basic_ctor_ok np, where m = zero_mem, folded basic_created_def]
  show c: "clientConfig basic_created = basic_config" by (rule C(3))
  show o: "ObjectSize (stats basic_created) = 8" by (rule C(4))
  note G = basic_geometry [OF c o]
  show "oa_inv basic_created [4096] [4128, 4111]"
    using C(2) by (simp add: G(1))
  show "trace basic_created [4096] {}"
    using trace.created [OF basic_ctor_ok np C(1)] .
  have "hb_type (HBlockInfo basic_config) \<noteq> hbNone" by (simp add: basic_config_def)
  moreover have "4111 \<in> set (page_blocks basic_created 4096)" by (simp add: G(1))
  moreover have "in_header basic_created 4111 4108" by (simp add: G(4))
  ultimately show "mem basic_created 4108 = 0" by (rule C(11))
qed

lemma basic_allocated_facts:
  shows "Allocate basic_created None (page_at 4096) = Some (Returns 4128 basic_allocated)"
    and "oa_inv basic_allocated [4096] [4111]"
    and "clientConfig basic_allocated = basic_config"
    and "ObjectSize (stats basic_allocated) = 8"
    and "trace basic_allocated [4096] {4128}"
    and "mem basic_allocated 4108 = 0"
    and "mem basic_allocated 4125 = 1"
proof -
  note C = basic_created_facts
  note G = basic_geometry [OF C(2,3)]
  have new: "header_new_ok basic_created None (page_at 4096)" by (rule G(7))
  note A = Allocate_pop_inv [OF C(1) new, folded basic_allocated_def]
  show a: "Allocate basic_created None (page_at 4096) = Some (Returns 4128 basic_allocated)"
    by (rule A(1))
  show "oa_inv basic_allocated [4096] [4111]" by (rule A(2))
  show "clientConfig basic_allocated = basic_config" "ObjectSize (stats basic_allocated) = 8"
    using A(3) C(2,3) by (simp_all add: same_geom_def)
  have "FreeList basic_created \<noteq> 0" using oa_inv_FreeList(1) [OF C(1)] by simp
  from trace.allocated [OF C(4) this a]
  show "trace basic_allocated [4096] {4128}" by simp
  have "mem basic_allocated 4108 = mem basic_created 4108"
    by (rule A(4)) (simp_all add: G(4) in_object_def)
  then show "mem basic_allocated 4108 = 0" by (simp add: C(5))
  show "mem basic_allocated 4125 = 1"
    unfolding basic_allocated_def Allocate_pop_mem(1) [OF C(1) new G(6)]
    by (simp add: configure_header_def Let_def G(5,8) C(3) memset_apply sizeof_int_def)
qed

lemma basic_overrun_facts:
  shows "path (mem basic_overrun) (PageList basic_overrun) [4096]"
    and "all_blocks basic_overrun [4096] = [4111, 4128]"
    and "filter (marked_in_use basic_overrun) [4111, 4128] = [4128]"
    and "filter (check_corruption basic_overrun) [4111, 4128] = [4128]"
    and "HBlockInfo (clientConfig basic_overrun)
           = \<lparr>hb_type = hbBasic, hb_size = 5, hb_additional = 0\<rparr>"
    and "PadBytes (clientConfig basic_overrun) = 2"
    and "ObjectSize (stats basic_overrun) = 8"
proof -
  note A = basic_allocated_facts
  note G = basic_geometry [OF A(3,4)]
  have p: "4128 \<in> set (all_blocks basic_allocated [4096])"
    by (simp add: all_blocks_def G(1))
  have x: "in_pads basic_allocated 4128 4136" by (simp add: in_pads_def G(5) A(4))
  have v: "(0 :: byte) \<noteq> PAD_PATTERN" by (simp add: PAD_PATTERN_def)
  note O = pad_overrun [OF A(2) G(6) p x v, folded basic_overrun_def]
  show "path (mem basic_overrun) (PageList basic_overrun) [4096]" by (rule O(3))
  show ab: "all_blocks basic_overrun [4096] = [4111, 4128]"
    unfolding O(7) by (simp add: all_blocks_def G(1))
  have c: "clientConfig basic_overrun = basic_config" "ObjectSize (stats basic_overrun) = 8"
    using A(3,4) by (simp_all add: basic_overrun_def)
  note G' = basic_geometry [OF c]
  show "HBlockInfo (clientConfig basic_overrun)
           = \<lparr>hb_type = hbBasic, hb_size = 5, hb_additional = 0\<rparr>" by (rule G'(8))
  show "PadBytes (clientConfig basic_overrun) = 2" by (rule G'(5))
  show "ObjectSize (stats basic_overrun) = 8" by (rule c(2))
  have "check_corruption basic_overrun 4111 \<longleftrightarrow> (4111 :: nat) = 4128"
    by (rule O(6)) (simp add: ab)
  moreover have "check_corruption basic_overrun 4128 \<longleftrightarrow> (4128 :: nat) = 4128"
    by (rule O(6)) (simp add: ab)
  ultimately show "filter (check_corruption basic_overrun) [4111, 4128] = [4128]" by simp
  have "mem basic_overrun 4108 = 0" "mem basic_overrun 4125 = 1"
    using A(6,7) by (simp_all add: basic_overrun_def)
  then show "filter (marked_in_use basic_overrun) [4111, 4128] = [4128]"
    by (simp add: marked_in_use_def check_leak_in_header_def G'(5,8))
qed


section \<open>The sample run with the external header\<close>

lemma external_ctor_ok: "ctor_ok 8 external_config 4096"
  by (simp add: ctor_ok_def external_config_def sizeof_ptr_def header_fits_def)

lemma external_geometry:
  assumes "clientConfig s = external_config" and "ObjectSize (stats s) = 8"
  shows "page_blocks s P = [P + 16, P + 32]" and "calculate_page_size s = 40"
    and "calculate_block_size s = 16"
    and "in_header s b x \<longleftrightarrow> b - 8 \<le> x \<and> x < b"
    and "PadBytes (clientConfig s) = 0" and "DebugOn (clientConfig s)"
    and "header_new_ok s None (info_at Q I)"
    and "HBlockInfo (clientConfig s) = \<lparr>hb_type = hbExternal, hb_size = 8, hb_additional = 0\<rparr>"
  using assms
  by (simp_all add: page_blocks_def block_at_def calculate_block_size_def create_offset_def
      calculate_page_size_def sizeof_ptr_def external_config_def upt_two
      in_header_def header_new_ok_def info_at_def)

lemma external_created_facts:
  shows "oa_inv external_created [4096] [4128, 4112]"
    and "clientConfig external_created = external_config"
    and "ObjectSize (stats external_created) = 8"
    and "mem external_created 4104 = 0"
    and "ObjectsInUse (stats external_created) = 0"
    and "Allocations (stats external_created) = 0"
    and "infos external_created = Map.empty"
proof -
  have np: "new_page (page_at 4096) = Some 4096" by (simp add: page_at_def)
  note C = ctor_inv [OF external_ctor_ok np, where m = zero_mem, folded external_created_def]
  show c: "clientConfig external_created = external_config" by (rule C(3))
  show o: "ObjectSize (stats external_created) = 8" by (rule C(4))
  note G = external_geometry [OF c o]
  show "oa_inv external_created [4096] [4128, 4112]"
    using C(2) by (simp add: G(1))
  show "ObjectsInUse (stats external_created) = 0" by (rule C(7))
  show "Allocations (stats external_created) = 0" by (rule C(9))
  show "infos external_created = Map.empty" by (rule C(6))
  have "hb_type (HBlockInfo external_config) \<noteq> hbNone" by (simp add: external_config_def)
  moreover have "4112 \<in> set (page_blocks external_created 4096)" by (simp add: G(1))
  moreover have "in_header external_created 4112 4104" by (simp add: G(4))
  ultimately show "mem external_created 4104 = 0" by (rule C(11))
qed

lemma external_allocated_facts:
  shows "Allocate external_created None (info_at 4096 0x20000)
           = Some (Returns 4128 external_allocated)"
    and "path (mem external_allocated) (PageList external_allocated) [4096]"
    and "all_blocks external_allocated [4096] = [4112, 4128]"
    and "filter (marked_in_use external_allocated) [4112, 4128] = []"
    and "hb_size (HBlockInfo (clientConfig external_allocated)) = 8"
    and "ObjectsInUse (stats external_allocated) = 1"
    and "infos external_allocated 0x20000
           = Some \<lparr>in_use = True, label = None, alloc_num = 1\<rparr>"
    and "read_ptr (mem external_allocated) 4120 = 0x20000"
proof -
  note C = external_created_facts
  note G = external_geometry [OF C(2,3)]
  have new: "header_new_ok external_created None (info_at 4096 0x20000)" by (rule G(7))
  note A = Allocate_pop_inv [OF C(1) new, folded external_allocated_def]
  show "Allocate external_created None (info_at 4096 0x20000)
           = Some (Returns 4128 external_allocated)"
    by (rule A(1))
  show "path (mem external_allocated) (PageList external_allocated) [4096]"
    by (rule oa_invD(3) [OF A(2)])
  have c: "clientConfig external_allocated = external_config"
    and o: "ObjectSize (stats external_allocated) = 8"
    using A(3) C(2,3) by (simp_all add: same_geom_def)
  note G' = external_geometry [OF c o]
  show "all_blocks external_allocated [4096] = [4112, 4128]"
    by (simp add: all_blocks_def G'(1))
  show "hb_size (HBlockInfo (clientConfig external_allocated)) = 8" by (simp add: G'(8))
  show "ObjectsInUse (stats external_allocated) = 1" unfolding A(5) by (simp add: C(5))
  show "infos external_allocated 0x20000
           = Some \<lparr>in_use = True, label = None, alloc_num = 1\<rparr>"
    unfolding external_allocated_def Allocate_pop_mem(2) [OF C(1) new G(6)]
    by (simp add: configure_header_def Let_def G(5,8) info_at_def C(6,7))
  have m: "mem external_allocated =
             memset (write_ptr (mem external_created) 4120 0x20000) 4128 ALLOCATED_PATTERN 8"
    unfolding external_allocated_def Allocate_pop_mem(1) [OF C(1) new G(6)]
    by (simp add: configure_header_def Let_def G(5,8) info_at_def C(3))
  have "mem external_allocated 4104 = mem external_created 4104"
    by (rule A(4)) (simp_all add: G(4) in_object_def)
  then have z1: "mem external_allocated 4104 = 0" by (simp add: C(4))
  have z2: "mem external_allocated 4120 = 0"
    unfolding m by (simp add: memset_apply write_ptr_apply sizeof_ptr_def)
  show "filter (marked_in_use external_allocated) [4112, 4128] = []"
    using z1 z2 by (simp add: marked_in_use_def check_leak_in_header_def G'(5,8))
  have "read_ptr (mem external_allocated) 4120
          = read_ptr (write_ptr (mem external_created) 4120 0x20000) 4120"
    unfolding m by (rule read_ptr_cong) (simp add: memset_apply sizeof_ptr_def)
  also have "\<dots> = 0x20000" by (rule read_write_ptr) simp
  finally show "read_ptr (mem external_allocated) 4120 = 0x20000" .
qed


section \<open>The geometry is the same after every call\<close>







section \<open>A run continued\<close>


section \<open>The sample run with two objects\<close>

lemma plain_record_live: "clientConfig s = plain_config \<Longrightarrow> record_live s p"
  by (simp add: record_live_def plain_config_def)





section \<open>The run with the external header, continued\<close>



section \<open>The claims\<close>




text \<open>
  C2. With \<open>MaxPages_ = 0\<close> the test \<open>PagesInUse_ >= MaxPages_\<close> of
  \<open>allocate_empty_page\<close> holds from the start: constructing a pool-mode allocator throws
  \<open>E_NO_PAGES\<close>.
\<close>

theorem max_pages_zero_throws:
  assumes "UseCPPMemManager config = False" and "MaxPages config = 0"
  shows "thrown (ObjectAllocator_ctor osz config m sys) = Some E_NO_PAGES"
  using assms
  by (simp add: ObjectAllocator_ctor_def Let_def allocate_new_page_def
      allocate_empty_page_throws)

theorem max_pages_zero_throws_witness:
  "UseCPPMemManager (plain_config\<lparr>MaxPages := 0\<rparr>) = False
   \<and> MaxPages (plain_config\<lparr>MaxPages := 0\<rparr>) = 0
   \<and> thrown (ObjectAllocator_ctor 8 (plain_config\<lparr>MaxPages := 0\<rparr>) zero_mem (page_at 4096))
       = Some E_NO_PAGES"
proof -
  have a: "UseCPPMemManager (plain_config\<lparr>MaxPages := 0\<rparr>) = False"
    by (simp add: plain_config_def)
  have b: "MaxPages (plain_config\<lparr>MaxPages := 0\<rparr>) = 0" by simp
  show ?thesis using a b max_pages_zero_throws [OF a b] by blast
qed

text \<open>
  C1. When \<open>Free\<close> throws in pool mode, the free list, the memory (with all headers)
  and the header records are as before the call, but the three counters
  \<open>Deallocations_\<close>, \<open>ObjectsInUse_\<close> and \<open>FreeObjects_\<close> have already been changed:
  \<open>put_on_freelist\<close> updates them before it calls \<open>check_freelist\<close>.
\<close>

theorem failed_free_changes_counters:
  assumes "UseCPPMemManager (clientConfig s) = False" and "Free s p = Some (Throws e s')"
  shows "FreeList s' = FreeList s \<and> mem s' = mem s \<and> infos s' = infos s
         \<and> stats s' = (stats s)\<lparr>Deallocations := Deallocations (stats s) + 1,
                                 ObjectsInUse := ObjectsInUse (stats s) - 1,
                                 FreeObjects := FreeObjects (stats s) + 1\<rparr>
         \<and> stats s' \<noteq> stats s"
proof -
  have "put_on_freelist s p = Some (Throws e s')" using assms by (simp add: Free_def)
  then have s': "s' = s\<lparr>stats := (stats s)\<lparr>Deallocations := Deallocations (stats s) + 1,
                      ObjectsInUse := ObjectsInUse (stats s) - 1,
                      FreeObjects := FreeObjects (stats s) + 1\<rparr>\<rparr>"
    by (rule put_on_freelist_Throws)
  have "Deallocations (stats s') \<noteq> Deallocations (stats s)" by (simp add: s')
  then have "stats s' \<noteq> stats s" by auto
  then show ?thesis by (simp add: s')
qed

theorem failed_free_changes_counters_witness:
  "UseCPPMemManager (clientConfig plain_freed) = False
   \<and> Free plain_freed 4112 = Some (Throws E_MULTIPLE_FREE plain_freed_twice)
   \<and> FreeList plain_freed_twice = FreeList plain_freed
   \<and> mem plain_freed_twice = mem plain_freed
   \<and> Deallocations (stats plain_freed) = 1 \<and> Deallocations (stats plain_freed_twice) = 2
   \<and> ObjectsInUse (stats plain_freed) = 0 \<and> ObjectsInUse (stats plain_freed_twice) = - 1
   \<and> FreeObjects (stats plain_freed) = 2 \<and> FreeObjects (stats plain_freed_twice) = 3"
proof -
  have a: "UseCPPMemManager (clientConfig plain_freed) = False"
    by (simp add: plain_freed_facts(3) plain_config_def)
  have b: "Free plain_freed 4112 = Some (Throws E_MULTIPLE_FREE plain_freed_twice)"
    by (rule plain_freed_twice_facts(1))
  have c: "stats plain_freed =
           (stats plain_created)\<lparr>FreeObjects := 2, ObjectsInUse := 0, MostObjects := 1,
                                   Allocations := 1, Deallocations := 1\<rparr>"
    by (rule plain_freed_facts(6))
  show ?thesis
    using a b failed_free_changes_counters [OF a b] by (simp add: c)
qed

text \<open>
  C3. A successful \<open>Allocate\<close> that takes a block off a non-empty free list decrements
  \<open>FreeObjects_\<close> and increments \<open>ObjectsInUse_\<close> and \<open>Allocations_\<close>; it also
  increments \<open>MostObjects_\<close>, whatever the number of objects in use is.
\<close>

theorem allocate_updates_counters:
  assumes "UseCPPMemManager (clientConfig s) = False" and "FreeList s \<noteq> 0"
    and "Allocate s lbl sys = Some (Returns p s')"
  shows "stats s' = (stats s)\<lparr>FreeObjects := FreeObjects (stats s) - 1,
                              ObjectsInUse := ObjectsInUse (stats s) + 1,
                              MostObjects := MostObjects (stats s) + 1,
                              Allocations := Allocations (stats s) + 1\<rparr>"
proof -
  have "take_off_freelist s lbl sys = Some (Returns p s')"
    using assms by (simp add: Allocate_def)
  then show ?thesis by (rule take_off_freelist_stats)
qed

theorem allocate_updates_counters_witness:
  "UseCPPMemManager (clientConfig plain_freed) = False
   \<and> FreeList plain_freed \<noteq> 0
   \<and> Allocate plain_freed None (page_at 4096) = Some (Returns 4112 plain_reallocated)
   \<and> MostObjects (stats plain_freed) = 1
   \<and> ObjectsInUse (stats plain_reallocated) = 1
   \<and> MostObjects (stats plain_reallocated) = 2
   \<and> MostObjects (stats plain_reallocated)
       \<noteq> max (MostObjects (stats plain_freed)) (ObjectsInUse (stats plain_reallocated))"
proof -
  have a: "UseCPPMemManager (clientConfig plain_freed) = False"
    by (simp add: plain_freed_facts(3) plain_config_def)
  have b: "FreeList plain_freed \<noteq> 0"
    using oa_inv_FreeList(1) [OF plain_freed_facts(2)] by simp
  have c: "Allocate plain_freed None (page_at 4096) = Some (Returns 4112 plain_reallocated)"
    by (rule plain_reallocated_facts(1))
  have d: "stats plain_freed =
           (stats plain_created)\<lparr>FreeObjects := 2, ObjectsInUse := 0, MostObjects := 1,
                                   Allocations := 1, Deallocations := 1\<rparr>"
    by (rule plain_freed_facts(6))
  show ?thesis
    using a b c allocate_updates_counters [OF a b c] by (simp add: d)
qed

text \<open>
  C10. Along every run of a client that keeps the contract, the free list is a list of
  distinct nodes that ends in the null pointer, and \<open>FreeObjects_\<close> is the number of its
  nodes (as a 32-bit counter).
\<close>

theorem free_list_counted:
  assumes "trace s pages live"
  shows "\<exists>fl. path (mem s) (FreeList s) fl \<and> distinct fl
              \<and> FreeObjects (stats s) = of_nat (length fl)"
proof -
  from trace_inv [OF assms] obtain fl where "oa_inv s pages fl" by blast
  from oa_invD(4,5,7) [OF this] show ?thesis by blast
qed

theorem free_list_counted_witness:
  "trace plain_freed [4096] {}
   \<and> (\<exists>fl. path (mem plain_freed) (FreeList plain_freed) fl \<and> distinct fl
              \<and> FreeObjects (stats plain_freed) = of_nat (length fl))"
  using plain_freed_facts(5) free_list_counted [OF plain_freed_facts(5)] by blast

text \<open>
  With debug mode off \<open>Free\<close> validates nothing: freeing the pointer 4112 a second time
  succeeds and links the node to itself, while \<open>FreeObjects_\<close> becomes 3 in a pool of
  two blocks.
\<close>

theorem free_list_counted_counterexample:
  "Allocate quiet_created None (page_at 4096) = Some (Returns 4112 quiet_allocated)
   \<and> Free quiet_allocated 4112 = Some (Returns () quiet_freed)
   \<and> Free quiet_freed 4112 = Some (Returns () quiet_freed_twice)
   \<and> FreeList quiet_freed_twice = 4112
   \<and> read_ptr (mem quiet_freed_twice) 4112 = 4112
   \<and> FreeObjects (stats quiet_freed_twice) = 3"
  using quiet_allocated_facts(1) quiet_freed_facts(1) quiet_freed_twice_facts by blast

text \<open>
  C5. Along a run of a client that keeps the contract, with debug mode on, when a byte of
  the padding of an allocated block is overwritten with a value other than the pad
  pattern, \<open>Free\<close> of that block throws \<open>E_CORRUPTED_BLOCK\<close>; \<open>ValidatePages\<close> reports
  exactly that block, with the pointer moved up by the header size, when the header size
  is not zero, and reports nothing when no header is configured.
\<close>

theorem overrun_detected:
  assumes "trace s pages live" and "DebugOn (clientConfig s)" and "p \<in> live"
    and "in_pads s p x" and "v \<noteq> PAD_PATTERN"
  shows "(\<exists>t. Free (s\<lparr>mem := (mem s)(x := v)\<rparr>) p = Some (Throws E_CORRUPTED_BLOCK t))
         \<and> ValidatePages (s\<lparr>mem := (mem s)(x := v)\<rparr>) =
             Some (if hb_size (HBlockInfo (clientConfig s)) = 0 then ([], 0)
                   else ([(p + hb_size (HBlockInfo (clientConfig s)), ObjectSize (stats s))], 1))"
proof -
  from trace_inv [OF assms(1)] obtain fl where inv: "oa_inv s pages fl"
    and live: "live = set (all_blocks s pages) - set fl" by blast
  from assms(3) live have p: "p \<in> set (all_blocks s pages)" by auto
  define s' where "s' = s\<lparr>mem := (mem s)(x := v)\<rparr>"
  note O = pad_overrun [OF inv assms(2) p assms(4,5), folded s'_def]
  note I = oa_invD [OF inv]
  have "check_corruption s' p" using O(6) [of p] O(7) p by simp
  from Free_debug(1) [OF O(1) O(2) O(4) O(3) O(5) this]
  have f: "\<exists>t. Free s' p = Some (Throws E_CORRUPTED_BLOCK t)" by blast
  have dist: "distinct (all_blocks s' pages)"
    unfolding O(7) by (rule distinct_all_blocks [OF I(1) I(2)])
  have p': "p \<in> set (all_blocks s' pages)" using p O(7) by simp
  have fil: "filter (check_corruption s') (all_blocks s' pages) = [p]"
    using dist p' O(6) by (rule filter_single)
  have "ValidatePages s' =
          Some (if hb_size (HBlockInfo (clientConfig s')) = 0 then ([], 0)
                else ([(p + hb_size (HBlockInfo (clientConfig s')), ObjectSize (stats s'))], 1))"
    unfolding ValidatePages_eq [OF O(3)] fil by simp
  then have "ValidatePages s' =
          Some (if hb_size (HBlockInfo (clientConfig s)) = 0 then ([], 0)
                else ([(p + hb_size (HBlockInfo (clientConfig s)), ObjectSize (stats s))], 1))"
    by (simp add: s'_def)
  with f show ?thesis unfolding s'_def by blast
qed

theorem overrun_detected_witness:
  "trace padded_allocated [4096] {4118} \<and> DebugOn (clientConfig padded_allocated)
   \<and> (4118 :: nat) \<in> {4118} \<and> in_pads padded_allocated 4118 4126 \<and> (0 :: byte) \<noteq> PAD_PATTERN
   \<and> unat (PadBytes (clientConfig padded_allocated)) = 2
   \<and> (\<exists>t. Free padded_overrun 4118 = Some (Throws E_CORRUPTED_BLOCK t))
   \<and> ValidatePages padded_overrun = Some ([], 0)"
proof -
  note A = padded_allocated_facts
  note G = padded_geometry [OF A(2,3)]
  have d: "DebugOn (clientConfig padded_allocated)" by (simp add: G(6))
  have m: "(4118 :: nat) \<in> {4118}" by simp
  have x: "in_pads padded_allocated 4118 4126" by (simp add: in_pads_def G(5) A(3))
  have v: "(0 :: byte) \<noteq> PAD_PATTERN" by (simp add: PAD_PATTERN_def)
  have u: "unat (PadBytes (clientConfig padded_allocated)) = 2" by (simp add: G(5))
  from overrun_detected [OF A(4) d m x v, folded padded_overrun_def]
  have "(\<exists>t. Free padded_overrun 4118 = Some (Throws E_CORRUPTED_BLOCK t))
        \<and> ValidatePages padded_overrun = Some ([], 0)"
    by (simp add: G(8))
  with A(4) d m x v u show ?thesis by blast
qed

text \<open>
  C9. For a well-formed page list, \<open>DumpMemoryInUse\<close> passes to the callback, for every
  block whose header marks it as in use, the object pointer of the block lowered by the
  padding width, and \<open>ValidatePages\<close> passes, for every block with a damaged padding, the
  object pointer of the block raised by the header size; both report nothing when the
  header size is zero.
\<close>

theorem callback_pointers:
  assumes "path (mem s) (PageList s) pages"
  shows "DumpMemoryInUse s =
           Some (if hb_size (HBlockInfo (clientConfig s)) = 0 then ([], 0)
                 else (map (\<lambda>b. (b - unat (PadBytes (clientConfig s)), ObjectSize (stats s)))
                         (filter (marked_in_use s) (all_blocks s pages)),
                       of_nat (length (filter (marked_in_use s) (all_blocks s pages)))))
         \<and> ValidatePages s =
           Some (if hb_size (HBlockInfo (clientConfig s)) = 0 then ([], 0)
                 else (map (\<lambda>b. (b + hb_size (HBlockInfo (clientConfig s)), ObjectSize (stats s)))
                         (filter (check_corruption s) (all_blocks s pages)),
                       of_nat (length (filter (check_corruption s) (all_blocks s pages)))))"
  using DumpMemoryInUse_eq [OF assms] ValidatePages_eq [OF assms] by (rule conjI)

theorem callback_pointers_witness:
  "path (mem basic_overrun) (PageList basic_overrun) [4096]
   \<and> Allocate basic_created None (page_at 4096) = Some (Returns 4128 basic_allocated)
   \<and> basic_overrun = basic_allocated\<lparr>mem := (mem basic_allocated)(4136 := 0)\<rparr>
   \<and> DumpMemoryInUse basic_overrun = Some ([(4126, 8)], 1)
   \<and> ValidatePages basic_overrun = Some ([(4133, 8)], 1)"
proof -
  note O = basic_overrun_facts
  from callback_pointers [OF O(1)]
  have "DumpMemoryInUse basic_overrun = Some ([(4126, 8)], 1)
        \<and> ValidatePages basic_overrun = Some ([(4133, 8)], 1)"
    unfolding O(2) O(3) O(4) O(5) O(6) O(7) by simp
  with O(1) basic_allocated_facts(1) basic_overrun_def show ?thesis by blast
qed

text \<open>
  C8. With the external header, after one allocation whose \<open>MemBlockInfo\<close> record the
  system allocator placed at the address \<open>0x20000\<close>, the header of the block points to the
  record, the record is marked as in use and \<open>ObjectsInUse_\<close> is 1, but
  \<open>DumpMemoryInUse\<close> calls the callback for no block and returns 0.
\<close>

theorem in_use_block_not_dumped:
  "Allocate external_created None (info_at 4096 0x20000) = Some (Returns 4128 external_allocated)
   \<and> read_ptr (mem external_allocated) 4120 = 0x20000
   \<and> infos external_allocated 0x20000 = Some \<lparr>in_use = True, label = None, alloc_num = 1\<rparr>
   \<and> ObjectsInUse (stats external_allocated) = 1
   \<and> DumpMemoryInUse external_allocated = Some ([], 0)"
proof -
  note A = external_allocated_facts
  have "DumpMemoryInUse external_allocated = Some ([], 0)"
    unfolding DumpMemoryInUse_eq [OF A(2)] A(3) A(4) by simp
  with A(1,8,7,6) show ?thesis by blast
qed

text \<open>
  C7. Along a run of a client that keeps the contract, with debug mode on, \<open>Free p\<close>
  throws \<open>E_BAD_BOUNDARY\<close> exactly when the padding check does not fire (there is no
  padding, or the bytes around \<open>p\<close> hold the pad pattern) and no page accepts \<open>p\<close>; a page
  accepts \<open>p\<close> when \<open>p\<close> is at or above the page start, at or below the page start plus
  \<open>ObjectsPerPage_\<close> block sizes, and the difference between \<open>p\<close> and the first object
  pointer of the page, read as an unsigned 64-bit number, is a multiple of the block size.
\<close>

theorem bad_boundary_iff:
  assumes "trace s pages live" and "DebugOn (clientConfig s)"
  shows "(\<exists>t. Free s p = Some (Throws E_BAD_BOUNDARY t)) \<longleftrightarrow>
           (PadBytes (clientConfig s) = 0 \<or> \<not> check_corruption s p)
           \<and> (\<forall>Q \<in> set pages. \<not> page_accepts s p Q)"
proof -
  from trace_inv [OF assms(1)] obtain fl where inv: "oa_inv s pages fl" by blast
  note I = oa_invD [OF inv]
  note F = Free_debug [OF I(1) assms(2) I(4) I(3)]
  have ne: "pages \<noteq> []" by (rule trace_pages_not_empty [OF assms(1)])
  show ?thesis
  proof (cases "PadBytes (clientConfig s) \<noteq> 0 \<and> check_corruption s p")
    case True
    then show ?thesis using F(1) [of p] by simp
  next
    case False
    then have c: "PadBytes (clientConfig s) = 0 \<or> \<not> check_corruption s p" by blast
    show ?thesis
    proof (cases "p \<in> set fl")
      case True
      then have "p \<in> set (all_blocks s pages)" using I(6) by blast
      from block_accepted_by_page [OF I(1) I(2) this] F(2) [OF c True] c
      show ?thesis by auto
    next
      case nf: False
      show ?thesis
      proof (cases "\<forall>Q \<in> set pages. \<not> page_accepts s p Q")
        case True
        from F(3) [OF c nf ne True] c True show ?thesis by simp
      next
        case False
        then have a: "pages = [] \<or> (\<exists>Q \<in> set pages. page_accepts s p Q)" by blast
        have "\<not> (\<exists>t. Free s p = Some (Throws E_BAD_BOUNDARY t))"
        proof (cases "record_live s p")
          case True
          from F(4) [OF c nf a True] show ?thesis by auto
        next
          case False
          from F(5) [OF c nf a False] show ?thesis by simp
        qed
        with False show ?thesis by blast
      qed
    qed
  qed
qed

theorem bad_boundary_iff_witness:
  "trace wide_created [4096] {} \<and> DebugOn (clientConfig wide_created)
   \<and> calculate_block_size wide_created = 12
   \<and> block_at wide_created 4096 0 = 4104
   \<and> (int 4100 - int 4104) mod 12 \<noteq> (0 :: int)
   \<and> page_accepts wide_created 4100 4096
   \<and> \<not> (\<exists>t. Free wide_created 4100 = Some (Throws E_BAD_BOUNDARY t))
   \<and> (\<exists>t. Free wide_created 4100 = Some (Returns () t))"
proof -
  note C = wide_created_facts
  note G = wide_geometry [OF C(2,3)]
  note I = oa_invD [OF C(1)]
  have c: "PadBytes (clientConfig wide_created) = 0 \<or> \<not> check_corruption wide_created 4100"
    by (simp add: G(4))
  have nf: "(4100 :: nat) \<notin> set [4116, 4104]" by simp
  have acc: "[4096] = [] \<or> (\<exists>Q \<in> set [4096]. page_accepts wide_created 4100 Q)"
    using wide_accepts by simp
  have rec: "record_live wide_created 4100" by (rule plain_record_live [OF C(2)])
  from Free_debug(4) [OF I(1) G(5) I(4) I(3) c nf acc rec]
  obtain r where r: "Free wide_created 4100 = Some r" and "thrown r = None" by auto
  moreover have "\<not> faulted r"
    using r by (cases r) (auto simp: Free_def put_on_freelist_def Let_def
        split: if_splits option.splits outcome.splits)
  ultimately have ret: "\<exists>t. Free wide_created 4100 = Some (Returns () t)"
    by (cases r) simp_all
  have a: "\<not> (\<forall>Q \<in> set [4096]. \<not> page_accepts wide_created 4100 Q)"
    using wide_accepts by simp
  have b: "block_at wide_created 4096 0 = 4104"
    by (simp add: block_at_def create_offset_def G(3,4,6) sizeof_ptr_def)
  have m: "(int 4100 - int 4104) mod 12 \<noteq> (0 :: int)" by simp
  from bad_boundary_iff [OF C(4) G(5), of 4100] a
  have "\<not> (\<exists>t. Free wide_created 4100 = Some (Throws E_BAD_BOUNDARY t))" by blast
  with C(4) G(5) G(3) b m wide_accepts ret show ?thesis by blast
qed




end
